(* ===== verification/RPN_Prelude.thy ===== *)
theory RPN_Prelude
  imports Main "HOL-Library.Sublist"
begin

text \<open>
  Shared vocabulary of the RPN development: the Rust standard-library operations that
  \<^verbatim>\<open>src/src/main.rs\<close> uses on its operand stack (\<^verbatim>\<open>Vec::push\<close>, \<^verbatim>\<open>Vec::pop\<close>),
  \<^verbatim>\<open>Option::expect\<close> as an error value instead of a panic, the control characters
  that appear in the program's output, and the generic list and option lemmas the
  component theories share. The collection \<open>rpn_simps\<close> gathers the characteristic
  equations of the model's operations; component proofs use \<open>simp add: rpn_simps\<close>.
\<close>

named_theorems rpn_simps "characteristic equations of the RPN model's operations"

subsection \<open>Characters of the output\<close>

abbreviation TAB :: char where "TAB \<equiv> CHR 0x09"
abbreviation NEWLINE :: char where "NEWLINE \<equiv> CHR 0x0A"
abbreviation QUOTE :: char where "QUOTE \<equiv> CHR 0x27"

subsection \<open>Vec as a list whose end is the top\<close>

text \<open>
  A Rust \<^verbatim>\<open>Vec\<close> used as a stack grows and shrinks at its end: \<^verbatim>\<open>push\<close> appends,
  \<^verbatim>\<open>pop\<close> removes the last element and returns \<^verbatim>\<open>None\<close> on an empty vector.
\<close>

definition vec_push :: "'a list \<Rightarrow> 'a \<Rightarrow> 'a list" where
  "vec_push xs x = xs @ [x]"

definition vec_pop :: "'a list \<Rightarrow> ('a \<times> 'a list) option" where
  "vec_pop xs = (if xs = [] then None else Some (last xs, butlast xs))"

text \<open>\<^verbatim>\<open>opt.expect(msg)\<close>: the value, or the panic carrying \<open>msg\<close>.\<close>

definition expect :: "'e \<Rightarrow> 'a option \<Rightarrow> 'e + 'a" where
  "expect msg r = (case r of None \<Rightarrow> Inl msg | Some x \<Rightarrow> Inr x)"

lemma vec_pop_push [simp, rpn_simps]: "vec_pop (vec_push xs x) = Some (x, xs)"
  by (simp add: vec_pop_def vec_push_def)

lemma vec_pop_Nil [simp, rpn_simps]: "vec_pop [] = None"
  by (simp add: vec_pop_def)

lemma vec_pop_snoc [simp, rpn_simps]: "vec_pop (xs @ [x]) = Some (x, xs)"
  by (simp add: vec_pop_def)

lemma vec_pop_None_iff [simp]: "vec_pop xs = None \<longleftrightarrow> xs = []"
  by (simp add: vec_pop_def)

lemma vec_pop_Some_iff [simp]: "vec_pop xs = Some (x, ys) \<longleftrightarrow> xs = ys @ [x]"
  by (cases xs rule: rev_cases) (auto simp: vec_pop_def)

lemma vec_pop_length: "vec_pop xs = Some (x, ys) \<Longrightarrow> length ys = length xs - 1"
  by simp

lemma vec_push_length [simp]: "length (vec_push xs x) = Suc (length xs)"
  by (simp add: vec_push_def)

lemma vec_pop_two [rpn_simps]: "vec_pop (xs @ [a, b]) = Some (b, xs @ [a])"
  using vec_pop_snoc [of "xs @ [a]" b] by simp

lemma expect_Some [simp, rpn_simps]: "expect msg (Some x) = Inr x"
  and expect_None [simp, rpn_simps]: "expect msg None = Inl msg"
  by (simp_all add: expect_def)

lemma expect_Inr_iff [simp]: "expect msg r = Inr x \<longleftrightarrow> r = Some x"
  by (cases r) (simp_all add: expect_def)

lemma expect_Inl_iff [simp]: "expect msg r = Inl e \<longleftrightarrow> r = None \<and> e = msg"
  by (cases r) (auto simp: expect_def)

subsection \<open>Lists of at least a given length\<close>

text \<open>A stack holding at least \<open>n\<close> values splits into its untouched base and its top \<open>n\<close>.\<close>

lemma length_ge_snoc_split:
  assumes "Suc 0 \<le> length xs"
  obtains ys a where "xs = ys @ [a]"
  using assms by (cases xs rule: rev_cases) auto

lemma length_ge_two_split:
  assumes "2 \<le> length xs"
  obtains ys a b where "xs = ys @ [a, b]"
proof -
  obtain zs b where zs: "xs = zs @ [b]"
    using assms by (cases xs rule: rev_cases) auto
  with assms obtain ys a where "zs = ys @ [a]"
    by (cases zs rule: rev_cases) auto
  with zs show ?thesis using that by simp
qed

end
