(* ===== verification/Tokenizer.thy ===== *)
theory Tokenizer
  imports RPN_Prelude
begin

text \<open>
  The tokenizer of the evaluator loop: \<^verbatim>\<open>input.split_whitespace()\<close>
  (\<^verbatim>\<open>src/src/main.rs\<close> line 58), from the Rust standard library. It splits at every
  character with the Unicode White_Space property and drops the empty pieces. Strings
  here are byte lists, so the model covers the ASCII white space (tab, line feed,
  vertical tab, form feed, carriage return, space); multi-byte white space is not
  modelled. The lemmas show that the tokens are the maximal runs of characters other
  than white space (the line is the tokens joined by white-space separators, non-empty
  between two tokens), that they are the input with its white space removed, and that
  splitting a line of blank-separated words gives the words back.
\<close>

definition is_whitespace :: "char \<Rightarrow> bool" where
  "is_whitespace c \<longleftrightarrow> of_char c = (32::nat) \<or> (9 \<le> (of_char c :: nat) \<and> (of_char c :: nat) \<le> 13)"

function split_whitespace :: "string \<Rightarrow> string list" where
  "split_whitespace s =
     (let s' = dropWhile is_whitespace s
      in if s' = [] then []
         else takeWhile (\<lambda>c. \<not> is_whitespace c) s'
              # split_whitespace (dropWhile (\<lambda>c. \<not> is_whitespace c) s'))"
  by pat_completeness auto
termination
proof (relation "measure length")
  fix s s'
  assume s': "s' = dropWhile is_whitespace s" and ne: "s' \<noteq> []"
  have hd: "\<not> is_whitespace (hd s')"
    using s' ne hd_dropWhile by blast
  have "length (dropWhile (\<lambda>c. \<not> is_whitespace c) s') < length s'"
    using ne hd by (cases s') (auto simp: le_imp_less_Suc length_dropWhile_le)
  also have "\<dots> \<le> length s"
    using s' by (simp add: length_dropWhile_le)
  finally show "(dropWhile (\<lambda>c. \<not> is_whitespace c) s', s) \<in> measure length"
    by simp
qed simp

text \<open>Joining words with one blank, the inverse the roundtrip lemma is about.\<close>

fun unwords :: "string list \<Rightarrow> string" where
  "unwords [] = []"
| "unwords [w] = w"
| "unwords (w # ws) = w @ CHR '' '' # unwords ws"

text \<open>
  A line as its separators and words: \<open>sep\<^sub>0 @ w\<^sub>1 @ sep\<^sub>1 @ \<dots> @ w\<^sub>n @ sep\<^sub>n\<close>, the
  specification the tokens are stated against.
\<close>

fun join_seps :: "string list \<Rightarrow> string list \<Rightarrow> string" where
  "join_seps (sep # seps) (w # ws) = sep @ w @ join_seps seps ws"
| "join_seps [sep] [] = sep"
| "join_seps _ _ = []"

declare split_whitespace.simps [simp del]

definition word_ok :: "string \<Rightarrow> bool" where
  "word_ok w \<longleftrightarrow> w \<noteq> [] \<and> list_all (\<lambda>c. \<not> is_whitespace c) w"

lemma word_ok_iff: "word_ok w \<longleftrightarrow> w \<noteq> [] \<and> (\<forall>c \<in> set w. \<not> is_whitespace c)"
  by (simp add: word_ok_def list_all_iff)

lemma is_whitespace_space [simp]: "is_whitespace (CHR '' '')"
  by (simp add: is_whitespace_def)

lemma split_whitespace_Nil [simp]: "split_whitespace [] = []"
  by (simp add: split_whitespace.simps)

lemma split_whitespace_ws [simp]:
  "is_whitespace c \<Longrightarrow> split_whitespace (c # s) = split_whitespace s"
  by (simp add: split_whitespace.simps [of "c # s"] split_whitespace.simps [of s])

lemma split_whitespace_word:
  "word_ok w \<Longrightarrow> (s = [] \<or> is_whitespace (hd s)) \<Longrightarrow>
   split_whitespace (w @ s) = w # split_whitespace s"
proof -
  assume w: "word_ok w" and s: "s = [] \<or> is_whitespace (hd s)"
  have tw: "takeWhile (\<lambda>c. \<not> is_whitespace c) (w @ s) = w"
    using w s by (cases s) (auto simp: word_ok_iff takeWhile_append2)
  have dw: "dropWhile (\<lambda>c. \<not> is_whitespace c) (w @ s) = s"
    using w s by (cases s) (auto simp: word_ok_iff dropWhile_append2)
  have d0: "dropWhile is_whitespace (w @ s) = w @ s"
    using w by (cases w) (auto simp: word_ok_iff)
  show ?thesis
    using w tw dw d0 by (subst split_whitespace.simps) (auto simp: word_ok_iff)
qed

lemma split_whitespace_blank:
  "dropWhile is_whitespace s = [] \<Longrightarrow> split_whitespace s = []"
  by (simp add: split_whitespace.simps [of s])

lemma split_whitespace_nonblank:
  "dropWhile is_whitespace s = c # r \<Longrightarrow>
   split_whitespace s = takeWhile (\<lambda>c. \<not> is_whitespace c) (c # r)
     # split_whitespace (dropWhile (\<lambda>c. \<not> is_whitespace c) (c # r))"
  by (simp add: split_whitespace.simps [of s] del: dropWhile.simps)

lemma filter_dropWhile_neg: "filter (\<lambda>x. \<not> P x) (dropWhile P xs) = filter (\<lambda>x. \<not> P x) xs"
  by (induction xs) simp_all

lemma filter_takeWhile_dropWhile:
  "filter P xs = takeWhile P xs @ filter P (dropWhile P xs)"
  by (induction xs) simp_all

lemma split_whitespace_tokens:
  "t \<in> set (split_whitespace s) \<Longrightarrow> word_ok t"
proof (induction s rule: split_whitespace.induct)
  case (1 s)
  show ?case
  proof (cases "dropWhile is_whitespace s")
    case Nil
    with "1.prems" show ?thesis by (simp add: split_whitespace_blank)
  next
    case (Cons c r)
    then have c: "\<not> is_whitespace c"
      using hd_dropWhile [of is_whitespace s] by simp
    from "1.prems" Cons consider
        "t = takeWhile (\<lambda>c. \<not> is_whitespace c) (c # r)"
      | "t \<in> set (split_whitespace (dropWhile (\<lambda>c. \<not> is_whitespace c) (c # r)))"
      by (auto simp only: split_whitespace_nonblank list.set)
    then show ?thesis
    proof cases
      case 1
      with c show ?thesis by (auto simp: word_ok_iff dest: set_takeWhileD)
    next
      case 2
      with "1.IH" Cons show ?thesis by simp
    qed
  qed
qed

lemma concat_split_whitespace:
  "concat (split_whitespace s) = filter (\<lambda>c. \<not> is_whitespace c) s"
proof (induction s rule: split_whitespace.induct)
  case (1 s)
  let ?P = "\<lambda>c. \<not> is_whitespace c"
  have f: "filter ?P s = filter ?P (dropWhile is_whitespace s)"
    by (rule filter_dropWhile_neg [symmetric])
  show ?case
  proof (cases "dropWhile is_whitespace s")
    case Nil
    with f show ?thesis by (simp add: split_whitespace_blank)
  next
    case (Cons c r)
    with "1.IH" have "concat (split_whitespace (dropWhile ?P (c # r))) = filter ?P (dropWhile ?P (c # r))"
      by simp
    with f Cons show ?thesis
      by (simp only: split_whitespace_nonblank concat.simps filter_takeWhile_dropWhile [of ?P "c # r"])
  qed
qed

lemma split_whitespace_seps:
  "\<exists>seps. length seps = Suc (length (split_whitespace s)) \<and> list_all (list_all is_whitespace) seps \<and>
     hd seps = takeWhile is_whitespace s \<and>
     (\<forall>i. 0 < i \<longrightarrow> i < length (split_whitespace s) \<longrightarrow> seps ! i \<noteq> []) \<and>
     s = join_seps seps (split_whitespace s)"
proof (induction s rule: split_whitespace.induct)
  case (1 s)
  show ?case
  proof (cases "dropWhile is_whitespace s")
    case Nil
    then have t: "takeWhile is_whitespace s = s" using takeWhile_dropWhile_id [of is_whitespace s] by simp
    then have "list_all is_whitespace s" by (metis list_all_iff set_takeWhileD)
    then show ?thesis using Nil unfolding t
      by (intro exI [of _ "[s]"]) (simp add: split_whitespace_blank)
  next
    case (Cons c r)
    define lead where "lead = takeWhile is_whitespace s"
    define w where "w = takeWhile (\<lambda>c. \<not> is_whitespace c) (c # r)"
    define rest where "rest = dropWhile (\<lambda>c. \<not> is_whitespace c) (c # r)"
    have sp: "split_whitespace s = w # split_whitespace rest"
      using Cons by (simp add: split_whitespace_nonblank w_def rest_def)
    obtain seps where IH: "length seps = Suc (length (split_whitespace rest))"
      "list_all (list_all is_whitespace) seps" "hd seps = takeWhile is_whitespace rest"
      "\<forall>i. 0 < i \<longrightarrow> i < length (split_whitespace rest) \<longrightarrow> seps ! i \<noteq> []"
      "rest = join_seps seps (split_whitespace rest)"
      using "1.IH" [OF refl] Cons by (auto simp: rest_def)
    have s: "s = lead @ w @ rest"
      using takeWhile_dropWhile_id [of is_whitespace s] takeWhile_dropWhile_id [of "\<lambda>c. \<not> is_whitespace c" "c # r"]
      by (simp add: Cons lead_def w_def rest_def)
    have lw: "list_all is_whitespace lead" by (auto simp: lead_def list_all_iff dest: set_takeWhileD)
    have first: "seps ! 0 \<noteq> []" if "split_whitespace rest \<noteq> []"
    proof -
      have "rest \<noteq> []" using that by auto
      moreover have "rest \<noteq> [] \<Longrightarrow> is_whitespace (hd rest)"
        unfolding rest_def using hd_dropWhile [of "\<lambda>c. \<not> is_whitespace c" "c # r"] by auto
      ultimately have "takeWhile is_whitespace rest \<noteq> []" by (cases rest) auto
      then show ?thesis using IH(1,3) by (cases seps) auto
    qed
    have inner: "\<forall>i. 0 < i \<longrightarrow> i < length (w # split_whitespace rest) \<longrightarrow> (lead # seps) ! i \<noteq> []"
    proof (intro allI impI)
      fix i assume i: "0 < i" "i < length (w # split_whitespace rest)"
      then obtain j where j: "i = Suc j" by (cases i) auto
      show "(lead # seps) ! i \<noteq> []"
      proof (cases j)
        case 0
        then show ?thesis using first i j by auto
      next
        case (Suc k)
        then show ?thesis using IH(4) i j by auto
      qed
    qed
    have "s = join_seps (lead # seps) (w # split_whitespace rest)"
      using IH(5) s by simp
    then show ?thesis using IH(1,2) lw inner sp
      by (intro exI [of _ "lead # seps"]) (simp add: lead_def)
  qed
qed

text \<open>
  C33: the tokens of a line are its maximal runs of characters other than white space:
  the line is \<open>sep\<^sub>0 @ w\<^sub>1 @ sep\<^sub>1 @ \<dots> @ w\<^sub>n @ sep\<^sub>n\<close> for the tokens \<open>w\<^sub>i\<close>,
  which are non-empty and free of white space, and separators \<open>sep\<^sub>i\<close> of white space
  only, those between two tokens non-empty.
\<close>

theorem split_whitespace_spec:
  "list_all word_ok (split_whitespace s) \<and>
   (\<exists>seps. length seps = Suc (length (split_whitespace s)) \<and> list_all (list_all is_whitespace) seps \<and>
      (\<forall>i. 0 < i \<longrightarrow> i < length (split_whitespace s) \<longrightarrow> seps ! i \<noteq> []) \<and>
      s = join_seps seps (split_whitespace s))"
  using split_whitespace_tokens split_whitespace_seps [of s] by (auto simp: list_all_iff)

theorem split_whitespace_spec_witness:
  "split_whitespace '' 12  ab'' = [''12'', ''ab''] \<and>
   (\<exists>seps. length seps = 3 \<and> seps ! 1 \<noteq> [] \<and> '' 12  ab'' = join_seps seps [''12'', ''ab''])"
proof -
  have w: "word_ok ''12''" "word_ok ''ab''" by (simp_all add: word_ok_iff is_whitespace_def)
  have "split_whitespace (''12'' @ ''  ab'') = ''12'' # split_whitespace ''  ab''"
    by (rule split_whitespace_word [OF w(1)]) simp
  moreover have "split_whitespace (''ab'' @ []) = ''ab'' # split_whitespace []"
    by (rule split_whitespace_word [OF w(2)]) simp
  ultimately have e: "split_whitespace '' 12  ab'' = [''12'', ''ab'']" by simp
  show ?thesis using split_whitespace_spec [of "'' 12  ab''"] unfolding e
    by (auto simp: numeral_3_eq_3)
qed

text \<open>
  Splitting words joined by single blanks gives the words back, when each word is
  non-empty and free of white space.
\<close>

lemma split_whitespace_unwords:
  "\<forall>w \<in> set ws. word_ok w \<Longrightarrow> split_whitespace (unwords ws) = ws"
proof (induction ws rule: unwords.induct)
  case 1
  then show ?case by simp
next
  case (2 w)
  then show ?case using split_whitespace_word [of w "[]"] by simp
next
  case (3 w v vs)
  then show ?case using split_whitespace_word [of w "CHR '' '' # unwords (v # vs)"] by simp
qed

end
