(* ===== verification/Float_Literal.thy ===== *)
theory Float_Literal
  imports RPN_Prelude
begin

text \<open>
  The recognizer behind \<^verbatim>\<open>token.parse::<f64>()\<close> (\<^verbatim>\<open>src/src/main.rs\<close> lines 150
  and 160--162), from Rust's \<^verbatim>\<open>core::num::dec2flt\<close>. It decides which tokens are
  numbers and which are variable names. The result is the decimal literal the string
  denotes, before rounding to a double: a sign, the decimal significand of all digits
  and the decimal exponent, or an infinity or NaN. Rounding the literal to a double is
  the interface operation \<open>f_of_lit\<close> of theory F64_Ops. The grammar accepted is
  \<^verbatim>\<open>[+-]? (inf | infinity | nan | Number)\<close>, the words case-insensitive, with
  \<^verbatim>\<open>Number ::= (Digit+ | Digit+ '.' Digit* | Digit* '.' Digit+) ([eE] [+-]? Digit+)?\<close>.
  The exponent saturates as in Rust: its digits stop accumulating once it reaches
  \<open>0x10000\<close>. The lemmas show that
  clearing bit 5 of a byte (\<^verbatim>\<open>& 0xDF\<close>) equates a letter exactly with its ASCII
  lower-case form, and that the recognizer accepts exactly the strings of the grammar
  (\<open>dec2flt_syntax\<close>).
\<close>

datatype float_lit =
    Finite_Lit (lit_negative: bool) (lit_mantissa: nat) (lit_exponent: int)
  | Inf_Lit bool
  | NaN_Lit bool

definition is_digit :: "char \<Rightarrow> bool" where
  "is_digit c \<longleftrightarrow> 48 \<le> (of_char c :: nat) \<and> (of_char c :: nat) \<le> 57"

definition digit_value :: "char \<Rightarrow> nat" where
  "digit_value c = of_char c - 48"

definition digits_value :: "string \<Rightarrow> nat" where
  "digits_value ds = foldl (\<lambda>acc d. 10 * acc + digit_value d) 0 ds"

text \<open>
  The exponent digits as \<^verbatim>\<open>parse_scientific\<close> accumulates them: a digit is added only
  while the value is below \<open>0x10000\<close> (\<^verbatim>\<open>if exponent < 0x10000\<close>), so the
  exponent saturates well before overflow.
\<close>

definition exp_digits_value :: "string \<Rightarrow> nat" where
  "exp_digits_value ds = foldl (\<lambda>acc d. if acc < 65536 then 10 * acc + digit_value d else acc) 0 ds"

text \<open>\<^verbatim>\<open>parse_scientific\<close>: the exponent after \<^verbatim>\<open>e\<close>/\<^verbatim>\<open>E\<close>, a sign and at least one digit.\<close>

definition parse_scientific :: "string \<Rightarrow> int option" where
  "parse_scientific s =
     (let (neg, r) = (case s of
                        c # r \<Rightarrow> if c = CHR ''-'' then (True, r)
                                 else if c = CHR ''+'' then (False, r) else (False, s)
                      | [] \<Rightarrow> (False, s))
      in if r \<noteq> [] \<and> list_all is_digit r
         then Some (if neg then - int (exp_digits_value r) else int (exp_digits_value r))
         else None)"

text \<open>
  \<^verbatim>\<open>parse_number\<close>: digits, an optional dot with digits, at least one digit in all,
  an optional exponent, and nothing after it. The value is the significand of all the
  digits and the exponent minus the number of digits after the dot.
\<close>

definition parse_number :: "string \<Rightarrow> (nat \<times> int) option" where
  "parse_number s =
     (let int_part = takeWhile is_digit s;
          r1 = dropWhile is_digit s;
          (frac, r2) = (case r1 of
                          c # r \<Rightarrow> if c = CHR ''.'' then (takeWhile is_digit r, dropWhile is_digit r)
                                   else ([], r1)
                        | [] \<Rightarrow> ([], []))
      in if length int_part + length frac = 0 then None
         else
           (let mantissa = digits_value (int_part @ frac);
                exponent = - int (length frac)
            in case r2 of
                 [] \<Rightarrow> Some (mantissa, exponent)
               | c # r \<Rightarrow>
                   if c = CHR ''e'' \<or> c = CHR ''E''
                   then map_option (\<lambda>e. (mantissa, exponent + e)) (parse_scientific r)
                   else None))"

text \<open>
  \<^verbatim>\<open>parse_inf_nan\<close> folds case by clearing bit 5 of every byte (\<^verbatim>\<open>& 0xDF\<close>) and
  compares with the upper-case words.
\<close>

definition fold_case_bit :: "char \<Rightarrow> char" where
  "fold_case_bit c = char_of (Bit_Operations.and (of_char c :: nat) 223)"

definition parse_inf_nan :: "string \<Rightarrow> bool \<Rightarrow> float_lit option" where
  "parse_inf_nan s negative =
     (let r = map fold_case_bit s
      in if r = ''INF'' \<or> r = ''INFINITY'' then Some (Inf_Lit negative)
         else if r = ''NAN'' then Some (NaN_Lit negative)
         else None)"

definition dec2flt :: "string \<Rightarrow> float_lit option" where
  "dec2flt s =
     (case s of
        [] \<Rightarrow> None
      | c # rest \<Rightarrow>
          (let negative = (c = CHR ''-'');
               t = (if c = CHR ''-'' \<or> c = CHR ''+'' then rest else s)
           in if t = [] then None
              else case parse_number t of
                     Some (m, e) \<Rightarrow> Some (Finite_Lit negative m e)
                   | None \<Rightarrow> parse_inf_nan t negative))"

subsection \<open>Printing literals\<close>

definition digit_char :: "nat \<Rightarrow> char" where
  "digit_char d = ''0123456789'' ! d"

fun show_nat :: "nat \<Rightarrow> string" where
  "show_nat n = (if n < 10 then [digit_char n] else show_nat (n div 10) @ [digit_char (n mod 10)])"

definition show_int :: "int \<Rightarrow> string" where
  "show_int i = (if i < 0 then CHR ''-'' # show_nat (nat (- i)) else show_nat (nat i))"

subsection \<open>The literal grammar\<close>

text \<open>
  The grammar of \<^verbatim>\<open>f64\<close> literals as the Rust documentation of \<^verbatim>\<open>f64::from_str\<close>
  states it, as inductive predicates over strings: an optional sign, then a number
  (digits with an optional point and fraction, at least one digit, an optional exponent)
  or one of the words inf, infinity, nan in any case. Upper case is ASCII upper case.
\<close>


definition ascii_upper :: "char \<Rightarrow> char" where
  "ascii_upper c = (let n = (of_char c :: nat) in if 97 \<le> n \<and> n \<le> 122 then char_of (n - 32) else c)"

definition sign_opt :: "string \<Rightarrow> bool" where
  "sign_opt sg \<longleftrightarrow> sg = [] \<or> sg = ''+'' \<or> sg = ''-''"

definition digits1 :: "string \<Rightarrow> bool" where
  "digits1 ds \<longleftrightarrow> ds \<noteq> [] \<and> list_all is_digit ds"

definition inf_nan_word :: "string \<Rightarrow> bool" where
  "inf_nan_word w \<longleftrightarrow> map ascii_upper w = ''INF'' \<or> map ascii_upper w = ''INFINITY'' \<or>
                      map ascii_upper w = ''NAN''"

inductive exp_syntax :: "string \<Rightarrow> bool" where
  exp: "e = CHR ''e'' \<or> e = CHR ''E'' \<Longrightarrow> sign_opt sg \<Longrightarrow> digits1 ds \<Longrightarrow> exp_syntax (e # sg @ ds)"

inductive number_syntax :: "string \<Rightarrow> bool" where
  whole: "digits1 ds \<Longrightarrow> x = [] \<or> exp_syntax x \<Longrightarrow> number_syntax (ds @ x)"
| point: "list_all is_digit ds \<Longrightarrow> list_all is_digit fs \<Longrightarrow> ds @ fs \<noteq> [] \<Longrightarrow>
          x = [] \<or> exp_syntax x \<Longrightarrow> number_syntax (ds @ CHR ''.'' # fs @ x)"

inductive float_syntax :: "string \<Rightarrow> bool" where
  number: "sign_opt sg \<Longrightarrow> number_syntax t \<Longrightarrow> float_syntax (sg @ t)"
| word: "sign_opt sg \<Longrightarrow> inf_nan_word w \<Longrightarrow> float_syntax (sg @ w)"

code_pred float_syntax .

inductive_simps exp_syntax_iff: "exp_syntax s"
inductive_simps number_syntax_iff: "number_syntax s"
inductive_simps float_syntax_iff: "float_syntax s"

declare show_nat.simps [simp del]

lemma is_digit_digit_char [simp]: "d < 10 \<Longrightarrow> is_digit (digit_char d)"
  by (auto simp: is_digit_def digit_char_def less_Suc_eq numeral_eq_Suc)

lemma digit_value_digit_char [simp]: "d < 10 \<Longrightarrow> digit_value (digit_char d) = d"
  by (auto simp: digit_value_def digit_char_def less_Suc_eq numeral_eq_Suc)

lemma digits_value_snoc [simp]:
  "digits_value (ds @ [d]) = 10 * digits_value ds + digit_value d"
  by (simp add: digits_value_def)

lemma digits_value_single [simp]: "digits_value [d] = digit_value d"
  by (simp add: digits_value_def)

lemma show_nat_digits: "show_nat n \<noteq> [] \<and> (\<forall>c \<in> set (show_nat n). is_digit c)"
proof (induction n rule: show_nat.induct)
  case (1 n)
  show ?case
    using "1.IH" by (cases "n < 10") (auto simp: show_nat.simps [of n])
qed

lemma digits_value_show_nat [simp]: "digits_value (show_nat n) = n"
proof (induction n rule: show_nat.induct)
  case (1 n)
  show ?case
    using "1.IH" by (cases "n < 10") (simp_all add: show_nat.simps [of n])
qed

lemma is_digit_not_sign [simp]:
  "\<not> is_digit (CHR ''-'')" "\<not> is_digit (CHR ''+'')" "\<not> is_digit (CHR ''.'')"
  "\<not> is_digit (CHR ''e'')" "\<not> is_digit (CHR ''E'')"
  by (simp_all add: is_digit_def)

lemma takeWhile_digits_append:
  "\<forall>c \<in> set ds. is_digit c \<Longrightarrow> \<not> is_digit x \<Longrightarrow> takeWhile is_digit (ds @ x # r) = ds"
  by (simp add: takeWhile_append2)

lemma dropWhile_digits_append:
  "\<forall>c \<in> set ds. is_digit c \<Longrightarrow> \<not> is_digit x \<Longrightarrow> dropWhile is_digit (ds @ x # r) = x # r"
  by (simp add: dropWhile_append2)

lemma show_nat_Cons_digit: "show_nat n = c # r \<Longrightarrow> is_digit c"
  using show_nat_digits [of n] by auto

lemma parse_number_no_digits:
  "s = c # r \<Longrightarrow> \<not> is_digit c \<Longrightarrow> c \<noteq> CHR ''.'' \<Longrightarrow> parse_number s = None"
  by (simp add: parse_number_def)

lemma fold_case_bit_Char:
  "fold_case_bit (Char b0 b1 b2 b3 b4 b5 b6 b7) = Char b0 b1 b2 b3 b4 False b6 b7"
  by (simp only: fold_case_bit_def of_char_Char char_of_def bit_and_iff bit_horner_sum_bit_iff)
     (simp add: bit_simps)

lemma of_char_fold_case_bit:
  "(of_char (fold_case_bit c) :: nat) = of_char c - 32 * of_bool (digit5 c)"
  by (cases c) (simp add: fold_case_bit_Char)

lemma digit5_div: "digit5 c \<longleftrightarrow> odd ((of_char c :: nat) div 32)"
proof -
  have "digit5 c \<longleftrightarrow> bit (of_char c :: nat) 5"
    by (simp only: of_char_def bit_horner_sum_bit_iff) simp
  then show ?thesis by (simp add: bit_iff_odd)
qed

lemma fold_case_bit_same: "\<not> digit5 c \<Longrightarrow> fold_case_bit c = c"
  by (cases c) (simp add: fold_case_bit_Char)

lemma div32_range: "a * 32 \<le> m \<Longrightarrow> m < (a + 1) * 32 \<Longrightarrow> m div 32 = (a::nat)"
  by (simp add: div_nat_eqI)

lemma fold_case_upper:
  assumes "65 \<le> (of_char L :: nat)" "(of_char L :: nat) \<le> 90"
  shows "fold_case_bit c = L \<longleftrightarrow> ascii_upper c = L"
proof -
  let ?m = "of_char c :: nat" and ?l = "of_char L :: nat"
  have L5: "\<not> digit5 L" using assms div32_range [of 2 ?l] by (simp add: digit5_div)
  have eq: "fold_case_bit c = L \<longleftrightarrow> ?m - 32 * of_bool (digit5 c) = ?l"
    by (metis of_char_eq_iff of_char_fold_case_bit)
  show ?thesis
  proof (cases "97 \<le> ?m \<and> ?m \<le> 122")
    case True
    then have "digit5 c" using div32_range [of 3 ?m] by (simp add: digit5_div)
    then show ?thesis using True eq by (auto simp: ascii_upper_def Let_def)
  next
    case False
    then have up: "ascii_upper c = c" by (auto simp: ascii_upper_def Let_def)
    show ?thesis
    proof (cases "digit5 c")
      case True
      then have "fold_case_bit c \<noteq> L" using eq False assms by auto
      moreover have "c \<noteq> L" using True L5 by auto
      ultimately show ?thesis using up by simp
    qed (simp add: fold_case_bit_same up)
  qed
qed

lemma fold_case_letters [simp]:
  "fold_case_bit (CHR ''i'') = CHR ''I''" "fold_case_bit (CHR ''n'') = CHR ''N''"
  "fold_case_bit (CHR ''f'') = CHR ''F''" "fold_case_bit (CHR ''a'') = CHR ''A''"
  "fold_case_bit (CHR ''N'') = CHR ''N''"
  by (simp_all add: fold_case_bit_Char)

lemma parse_inf_nan_length [simp]:
  "length s \<noteq> 3 \<Longrightarrow> length s \<noteq> 8 \<Longrightarrow> parse_inf_nan s neg = None"
proof -
  assume "length s \<noteq> 3" "length s \<noteq> 8"
  then have "map fold_case_bit s \<noteq> ''INF'' \<and> map fold_case_bit s \<noteq> ''INFINITY'' \<and>
             map fold_case_bit s \<noteq> ''NAN''"
    by (auto dest: arg_cong [where f = length])
  then show ?thesis by (simp add: parse_inf_nan_def Let_def)
qed

lemma parse_word_inf_nan [simp]:
  "parse_inf_nan ''inf'' neg = Some (Inf_Lit neg)" "parse_inf_nan ''NaN'' neg = Some (NaN_Lit neg)"
  "parse_number ''inf'' = None" "parse_number ''NaN'' = None"
  by (simp_all add: parse_inf_nan_def parse_number_no_digits is_digit_def)

lemma map_fold_case_upper:
  "list_all (\<lambda>L. 65 \<le> (of_char L :: nat) \<and> (of_char L :: nat) \<le> 90) w \<Longrightarrow>
   map fold_case_bit s = w \<longleftrightarrow> map ascii_upper s = w"
proof (induction s arbitrary: w)
  case (Cons c s)
  then show ?case by (cases w) (simp_all add: fold_case_upper)
qed simp

lemma parse_inf_nan_upper:
  "parse_inf_nan t neg =
     (let u = map ascii_upper t
      in if u = ''INF'' \<or> u = ''INFINITY'' then Some (Inf_Lit neg)
         else if u = ''NAN'' then Some (NaN_Lit neg) else None)"
proof -
  have "map fold_case_bit t = w \<longleftrightarrow> map ascii_upper t = w"
    if "w \<in> {''INF'', ''INFINITY'', ''NAN''}" for w
    using that by (auto intro!: map_fold_case_upper)
  then show ?thesis by (simp add: parse_inf_nan_def Let_def)
qed

lemma parse_inf_nan_iff: "parse_inf_nan t neg \<noteq> None \<longleftrightarrow> inf_nan_word t"
  by (simp add: parse_inf_nan_upper inf_nan_word_def Let_def)

lemma parse_scientific_iff:
  "parse_scientific r \<noteq> None \<longleftrightarrow> (\<exists>sg ds. r = sg @ ds \<and> sign_opt sg \<and> digits1 ds)"
proof
  assume "parse_scientific r \<noteq> None"
  then show "\<exists>sg ds. r = sg @ ds \<and> sign_opt sg \<and> digits1 ds"
  proof (cases r)
    case (Cons c r')
    show ?thesis
    proof (cases "c = CHR ''-'' \<or> c = CHR ''+''")
      case True
      with Cons \<open>parse_scientific r \<noteq> None\<close> have "digits1 r'"
        by (auto simp: parse_scientific_def digits1_def split: if_splits)
      moreover have "r = [c] @ r'" "sign_opt [c]" using Cons True by (auto simp: sign_opt_def)
      ultimately show ?thesis by blast
    next
      case False
      with Cons \<open>parse_scientific r \<noteq> None\<close> have "digits1 r"
        by (auto simp: parse_scientific_def digits1_def split: if_splits)
      then show ?thesis by (auto simp: sign_opt_def)
    qed
  qed (simp add: parse_scientific_def)
next
  assume "\<exists>sg ds. r = sg @ ds \<and> sign_opt sg \<and> digits1 ds"
  then obtain sg ds where r: "r = sg @ ds" and sg: "sign_opt sg" and ds: "digits1 ds" by blast
  obtain d ds' where d: "ds = d # ds'" using ds by (cases ds) (auto simp: digits1_def)
  have "is_digit d" using ds d by (simp add: digits1_def)
  then have "d \<noteq> CHR ''-'' \<and> d \<noteq> CHR ''+''" by auto
  then show "parse_scientific r \<noteq> None"
    using sg ds d by (auto simp: r sign_opt_def parse_scientific_def digits1_def)
qed

lemma exp_syntax_Cons:
  "exp_syntax (e # r) \<longleftrightarrow> (e = CHR ''e'' \<or> e = CHR ''E'') \<and> parse_scientific r \<noteq> None"
  unfolding exp_syntax_iff parse_scientific_iff by auto

lemma exp_syntax_Nil [simp]: "\<not> exp_syntax []"
  by (simp add: exp_syntax_iff)

lemma exp_syntax_not_digit: "exp_syntax x \<Longrightarrow> x = c # r \<Longrightarrow> \<not> is_digit c \<and> c \<noteq> CHR ''.''"
  by (auto simp: exp_syntax_Cons is_digit_def)

lemma exp_opt_cases:
  assumes "x = [] \<or> exp_syntax x"
  obtains "x = []"
  | c r y where "x = c # r" "c = CHR ''e'' \<or> c = CHR ''E''" "parse_scientific r = Some y"
  using assms by (cases x) (auto simp: exp_syntax_Cons)

lemma exp_opt_digits:
  assumes "x = [] \<or> exp_syntax x"
  shows "takeWhile is_digit x = []" "dropWhile is_digit x = x" "x \<noteq> CHR ''.'' # r"
  using assms by (cases x; auto dest: exp_syntax_not_digit)+

lemma all_digits_while:
  "list_all is_digit ds \<Longrightarrow> takeWhile is_digit ds = ds"
  "list_all is_digit ds \<Longrightarrow> dropWhile is_digit ds = []"
  by (simp_all add: list_all_iff)

lemma takeWhile_digits_exp:
  "list_all is_digit ds \<Longrightarrow> x = [] \<or> exp_syntax x \<Longrightarrow> takeWhile is_digit (ds @ x) = ds"
  by (simp add: takeWhile_append list_all_iff exp_opt_digits)

lemma dropWhile_digits_exp:
  "list_all is_digit ds \<Longrightarrow> x = [] \<or> exp_syntax x \<Longrightarrow> dropWhile is_digit (ds @ x) = x"
  by (simp add: dropWhile_append list_all_iff exp_opt_digits)

lemma parse_number_whole:
  assumes "digits1 ds" "x = [] \<or> exp_syntax x"
  shows "parse_number (ds @ x) \<noteq> None"
proof -
  have d: "list_all is_digit ds" "ds \<noteq> []" using assms(1) by (auto simp: digits1_def)
  have "(case x of c # r \<Rightarrow> if c = CHR ''.'' then (takeWhile is_digit r, dropWhile is_digit r)
                             else ([], x) | [] \<Rightarrow> ([], [])) = ([], x)"
    using exp_opt_digits(3) [OF assms(2)] by (cases x) auto
  with d assms(2) show ?thesis
    by (cases rule: exp_opt_cases [OF assms(2)])
       (auto simp: parse_number_def takeWhile_digits_exp dropWhile_digits_exp Let_def
             all_digits_while)
qed

lemma parse_number_point:
  assumes "list_all is_digit ds" "list_all is_digit fs" "ds @ fs \<noteq> []" "x = [] \<or> exp_syntax x"
  shows "parse_number (ds @ CHR ''.'' # fs @ x) \<noteq> None"
proof -
  have "takeWhile is_digit (ds @ CHR ''.'' # fs @ x) = ds"
       "dropWhile is_digit (ds @ CHR ''.'' # fs @ x) = CHR ''.'' # fs @ x"
    using assms(1) by (simp_all add: takeWhile_digits_append dropWhile_digits_append list_all_iff)
  with assms show ?thesis
    by (cases rule: exp_opt_cases [OF assms(4)])
       (auto simp: parse_number_def takeWhile_digits_exp dropWhile_digits_exp Let_def
             all_digits_while)
qed

lemma number_syntax_parse: "number_syntax t \<Longrightarrow> parse_number t \<noteq> None"
  by (induction rule: number_syntax.induct) (simp_all add: parse_number_whole parse_number_point)

lemma exp_tail_opt:
  "(case r2 of [] \<Rightarrow> Some a
     | c # r \<Rightarrow> if c = CHR ''e'' \<or> c = CHR ''E'' then map_option f (parse_scientific r) else None)
     = Some y \<Longrightarrow> r2 = [] \<or> exp_syntax r2"
  by (cases r2) (auto simp: exp_syntax_Cons split: if_splits)

lemma parse_number_syntax:
  assumes "parse_number t = Some p"
  shows "number_syntax t"
proof -
  define ip where "ip = takeWhile is_digit t"
  define r1 where "r1 = dropWhile is_digit t"
  have t: "t = ip @ r1" and ipd: "list_all is_digit ip"
    by (auto simp: ip_def r1_def list_all_iff dest: set_takeWhileD)
  show ?thesis
  proof (cases "\<exists>r. r1 = CHR ''.'' # r")
    case True
    then obtain r where r: "r1 = CHR ''.'' # r" by blast
    define fs where "fs = takeWhile is_digit r"
    define x where "x = dropWhile is_digit r"
    have "r = fs @ x" "list_all is_digit fs" by (auto simp: fs_def x_def list_all_iff dest: set_takeWhileD)
    moreover have "ip @ fs \<noteq> []" "x = [] \<or> exp_syntax x"
      using assms by (auto simp: parse_number_def Let_def r
          simp flip: ip_def r1_def fs_def x_def dest: exp_tail_opt split: if_splits)
    ultimately show ?thesis using t r ipd number_syntax.point by simp
  next
    case False
    then have "ip \<noteq> []" "r1 = [] \<or> exp_syntax r1"
      using assms by (auto simp: parse_number_def Let_def exp_syntax_Cons simp flip: ip_def r1_def
          split: if_splits list.splits)
    then show ?thesis using t ipd number_syntax.whole by (simp add: digits1_def)
  qed
qed

lemma number_syntax_iff_parse: "number_syntax t \<longleftrightarrow> parse_number t \<noteq> None"
  using number_syntax_parse parse_number_syntax by blast

lemma syntax_body_head:
  assumes "number_syntax t \<or> inf_nan_word t"
  obtains c r where "t = c # r" "c \<noteq> CHR ''+''" "c \<noteq> CHR ''-''"
proof (cases t)
  case Nil
  then show ?thesis using assms
    by (auto simp: number_syntax_iff_parse parse_number_def inf_nan_word_def)
next
  case (Cons c r)
  have "c \<noteq> CHR ''+'' \<and> c \<noteq> CHR ''-''"
    using assms parse_number_no_digits [OF Cons]
    by (auto simp: Cons number_syntax_iff_parse inf_nan_word_def ascii_upper_def)
  then show ?thesis using Cons that by blast
qed

lemma dec2flt_syntax: "dec2flt s \<noteq> None \<longleftrightarrow> float_syntax s"
proof
  assume d: "dec2flt s \<noteq> None"
  then obtain c rest where s: "s = c # rest" by (cases s) (auto simp: dec2flt_def)
  define t where "t = (if c = CHR ''-'' \<or> c = CHR ''+'' then rest else s)"
  define sg where "sg = (if c = CHR ''-'' \<or> c = CHR ''+'' then [c] else [])"
  have "s = sg @ t" "sign_opt sg" by (auto simp: s t_def sg_def sign_opt_def)
  moreover have "number_syntax t \<or> inf_nan_word t"
    using d parse_inf_nan_iff [of t]
    by (cases "c = CHR ''-'' \<or> c = CHR ''+''")
       (auto simp: dec2flt_def s t_def number_syntax_iff_parse Let_def split: option.splits if_splits)
  ultimately show "float_syntax s" by (auto intro: float_syntax.intros)
next
  assume "float_syntax s"
  then obtain sg t where s: "s = sg @ t" and sg: "sign_opt sg"
    and body: "number_syntax t \<or> inf_nan_word t"
    by (auto simp: float_syntax_iff)
  obtain c r where t: "t = c # r" "c \<noteq> CHR ''+''" "c \<noteq> CHR ''-''"
    using syntax_body_head [OF body] by blast
  have "parse_number t \<noteq> None \<or> parse_inf_nan t neg \<noteq> None" for neg
    using body parse_inf_nan_iff [of t neg] by (auto simp: number_syntax_iff_parse)
  then show "dec2flt s \<noteq> None"
    using sg t by (auto simp: dec2flt_def s sign_opt_def Let_def split: option.splits)
qed

lemma parse_number_point_exp:
  assumes "list_all is_digit ds" "list_all is_digit fs" "ds @ fs \<noteq> []" "parse_scientific x = Some k"
  shows "parse_number (ds @ CHR ''.'' # fs @ CHR ''e'' # x) =
           Some (digits_value (ds @ fs), k - int (length fs))"
proof -
  have ex: "exp_syntax (CHR ''e'' # x)" using assms(4) by (simp add: exp_syntax_Cons)
  have "takeWhile is_digit (ds @ CHR ''.'' # fs @ CHR ''e'' # x) = ds"
       "dropWhile is_digit (ds @ CHR ''.'' # fs @ CHR ''e'' # x) = CHR ''.'' # fs @ CHR ''e'' # x"
    using assms(1) by (simp_all add: takeWhile_digits_append dropWhile_digits_append list_all_iff)
  with assms ex show ?thesis
    by (simp add: parse_number_def takeWhile_digits_exp dropWhile_digits_exp Let_def)
qed

lemma dec2flt_unsigned:
  "parse_number t = Some (m, e) \<Longrightarrow> \<not> (\<exists>r. t = CHR ''-'' # r \<or> t = CHR ''+'' # r) \<Longrightarrow>
   dec2flt t = Some (Finite_Lit False m e)"
  by (cases t) (auto simp: dec2flt_def parse_number_def)

end
