(* ===== verification/F64_Ops.thy ===== *)
theory F64_Ops
  imports Float_Literal
begin

text \<open>
  The interface between the evaluator and the floating-point type it computes with.
  \<^verbatim>\<open>src/src/main.rs\<close> computes with Rust's \<^verbatim>\<open>f64\<close>; the evaluator theory is stated
  over a type variable \<open>'v\<close> of values and a record of the \<^verbatim>\<open>f64\<close> operations the
  source calls: the six binary operators and \<^verbatim>\<open>log\<close> (value1 first, as in
  \<^verbatim>\<open>value1 + value0\<close> and \<^verbatim>\<open>value1.log(value0)\<close>), the five unary methods, the four
  constants, the rounding of a decimal literal (the last step of
  \<^verbatim>\<open>str::parse::<f64>\<close>) and \<^verbatim>\<open>Display\<close>. Every lemma about the evaluator holds
  for every instance; theory Float_Model gives one.
\<close>

record 'v f64_ops =
  f_add :: "'v \<Rightarrow> 'v \<Rightarrow> 'v"
  f_sub :: "'v \<Rightarrow> 'v \<Rightarrow> 'v"
  f_mul :: "'v \<Rightarrow> 'v \<Rightarrow> 'v"
  f_div :: "'v \<Rightarrow> 'v \<Rightarrow> 'v"
  f_rem :: "'v \<Rightarrow> 'v \<Rightarrow> 'v"
  f_powf :: "'v \<Rightarrow> 'v \<Rightarrow> 'v"
  f_log :: "'v \<Rightarrow> 'v \<Rightarrow> 'v"
  f_sqrt :: "'v \<Rightarrow> 'v"
  f_cos :: "'v \<Rightarrow> 'v"
  f_sin :: "'v \<Rightarrow> 'v"
  f_tan :: "'v \<Rightarrow> 'v"
  f_abs :: "'v \<Rightarrow> 'v"
  f_PI :: 'v
  f_E :: 'v
  f_EPSILON :: 'v
  f_INFINITY :: 'v
  f_of_lit :: "float_lit \<Rightarrow> 'v"
  f_show :: "'v \<Rightarrow> string"

text \<open>\<^verbatim>\<open>s.parse::<f64>()\<close>: \<^verbatim>\<open>Ok\<close> of the rounded literal, or an error.\<close>

definition parse_f64 :: "'v f64_ops \<Rightarrow> string \<Rightarrow> 'v option" where
  "parse_f64 ops s = map_option (f_of_lit ops) (dec2flt s)"

lemma parse_f64_None_iff: "parse_f64 ops s = None \<longleftrightarrow> dec2flt s = None"
  by (simp add: parse_f64_def)

text \<open>
  C25: a token is read as a number by \<^verbatim>\<open>parse::<f64>\<close> exactly when it matches the
  documented grammar of \<^verbatim>\<open>f64\<close> literals (optional sign; digits with an optional
  point and fraction and an optional exponent; or inf, infinity, nan in any case);
  every other token is treated by the calculator as a variable name.
\<close>

theorem parse_f64_accepts: "parse_f64 ops s \<noteq> None \<longleftrightarrow> float_syntax s"
  by (simp add: parse_f64_def dec2flt_syntax del: not_None_eq)

theorem parse_f64_accepts_witness:
  "float_syntax ''-2.5E+3'' \<and> float_syntax ''.5'' \<and> float_syntax ''iNfInItY'' \<and>
   \<not> float_syntax ''x'' \<and> \<not> float_syntax ''1e'' \<and> \<not> float_syntax ''+-1''"
proof -
  have e: "float_syntax s \<longleftrightarrow> parse_f64 (undefined :: unit f64_ops) s \<noteq> None" for s
    by (rule parse_f64_accepts [symmetric])
  show ?thesis
    by (simp only: e) (simp add: parse_f64_def dec2flt_def parse_number_def parse_scientific_def
        parse_inf_nan_def is_digit_def fold_case_bit_Char Let_def)
qed

text \<open>
  C26: the value of a decimal literal with a point and an exponent: the significand is
  the number formed by all its digits, and the exponent is the written exponent minus
  the number of digits after the point (so \<^verbatim>\<open>12.5e3\<close> is 125 times ten to the 2).
\<close>

theorem parse_f64_decimal:
  assumes "list_all is_digit ds" "list_all is_digit fs" "ds @ fs \<noteq> []" "parse_scientific x = Some k"
  shows "parse_f64 ops (ds @ CHR ''.'' # fs @ CHR ''e'' # x) =
           Some (f_of_lit ops (Finite_Lit False (digits_value (ds @ fs)) (k - int (length fs))))"
proof -
  have "\<not> (\<exists>r. ds @ CHR ''.'' # fs @ CHR ''e'' # x = CHR ''-'' # r \<or>
              ds @ CHR ''.'' # fs @ CHR ''e'' # x = CHR ''+'' # r)"
    using assms(1) by (cases ds) auto
  then show ?thesis
    using dec2flt_unsigned parse_number_point_exp [OF assms] by (simp add: parse_f64_def)
qed

theorem parse_f64_decimal_witness:
  "list_all is_digit ''12'' \<and> list_all is_digit ''5'' \<and> ''12'' @ ''5'' \<noteq> [] \<and>
   parse_scientific ''3'' = Some 3 \<and>
   (\<forall>ops :: string f64_ops. parse_f64 ops ''12.5e3'' = Some (f_of_lit ops (Finite_Lit False 125 2)))"
proof -
  have d: "list_all is_digit ''12''" "list_all is_digit ''5''" by (simp_all add: is_digit_def)
  have s: "parse_scientific ''3'' = Some 3"
    by (simp add: parse_scientific_def is_digit_def exp_digits_value_def digit_value_def)
  have v: "digits_value ''125'' = 125" by (simp add: digits_value_def digit_value_def)
  have "parse_f64 ops ''12.5e3'' = Some (f_of_lit ops (Finite_Lit False 125 2))"
    for ops :: "string f64_ops"
    using parse_f64_decimal [OF d _ s, where ops = ops] v by simp
  then show ?thesis using d s by simp
qed

end
