(* ===== verification/Float_Model.thy ===== *)
theory Float_Model
  imports Complex_Main F64_Ops
begin

text \<open>
  An idealised model of Rust's \<^verbatim>\<open>f64\<close>, the instance of the interface \<open>f64_ops\<close>
  used for the concrete runs of the calculator. A value is a real number, one of the
  two infinities, or NaN. The special cases follow IEEE 754 and the C99 Annex F rules
  that Rust's \<^verbatim>\<open>f64\<close> methods inherit (infinities, NaN propagation, division by zero,
  \<^verbatim>\<open>%\<close> as the truncated remainder, \<^verbatim>\<open>powf\<close>, \<^verbatim>\<open>log(self, base) = ln self / ln base\<close>).
  Finite results are exact: rounding to 53 bits, overflow to infinity, subnormals and
  the sign of zero are not modelled (a zero divisor counts as \<open>+0.0\<close>). The constants
  are the exact numbers \<^verbatim>\<open>PI\<close>, \<^verbatim>\<open>E\<close>, \<^verbatim>\<open>EPSILON = 2^-52\<close> and \<^verbatim>\<open>INFINITY\<close>
  that the \<^verbatim>\<open>f64\<close> constants round. \<open>xf_show\<close> prints integers as Rust's
  \<^verbatim>\<open>Display\<close> does (\<^verbatim>\<open>7\<close>, \<^verbatim>\<open>-5\<close>, \<^verbatim>\<open>inf\<close>, \<^verbatim>\<open>NaN\<close>) and other reals by their
  first 16 decimals.
\<close>

datatype xf = Fin real | PInf | NInf | NaN

fun xf_neg :: "xf \<Rightarrow> xf" where
  "xf_neg (Fin a) = Fin (- a)"
| "xf_neg PInf = NInf"
| "xf_neg NInf = PInf"
| "xf_neg NaN = NaN"

fun xf_add :: "xf \<Rightarrow> xf \<Rightarrow> xf" where
  "xf_add NaN _ = NaN"
| "xf_add _ NaN = NaN"
| "xf_add PInf NInf = NaN"
| "xf_add NInf PInf = NaN"
| "xf_add PInf _ = PInf"
| "xf_add NInf _ = NInf"
| "xf_add _ PInf = PInf"
| "xf_add _ NInf = NInf"
| "xf_add (Fin a) (Fin b) = Fin (a + b)"

definition xf_sub :: "xf \<Rightarrow> xf \<Rightarrow> xf" where
  "xf_sub a b = xf_add a (xf_neg b)"

text \<open>The sign of a non-NaN value, for the infinite cases of \<open>*\<close> and \<open>/\<close>.\<close>

fun xf_sign :: "xf \<Rightarrow> real" where
  "xf_sign (Fin a) = (if a < 0 then -1 else 1)"
| "xf_sign PInf = 1"
| "xf_sign NInf = -1"
| "xf_sign NaN = 1"

definition inf_of_sign :: "real \<Rightarrow> xf" where
  "inf_of_sign s = (if s < 0 then NInf else PInf)"

fun xf_mul :: "xf \<Rightarrow> xf \<Rightarrow> xf" where
  "xf_mul NaN _ = NaN"
| "xf_mul _ NaN = NaN"
| "xf_mul (Fin a) (Fin b) = Fin (a * b)"
| "xf_mul (Fin a) y = (if a = 0 then NaN else inf_of_sign (xf_sign (Fin a) * xf_sign y))"
| "xf_mul x (Fin b) = (if b = 0 then NaN else inf_of_sign (xf_sign x * xf_sign (Fin b)))"
| "xf_mul x y = inf_of_sign (xf_sign x * xf_sign y)"

fun xf_div :: "xf \<Rightarrow> xf \<Rightarrow> xf" where
  "xf_div NaN _ = NaN"
| "xf_div _ NaN = NaN"
| "xf_div (Fin a) (Fin b) =
     (if b \<noteq> 0 then Fin (a / b) else if a = 0 then NaN else inf_of_sign a)"
| "xf_div (Fin a) _ = Fin 0"
| "xf_div x (Fin b) = inf_of_sign (xf_sign x * xf_sign (Fin b))"
| "xf_div _ _ = NaN"

definition trunc_real :: "real \<Rightarrow> real" where
  "trunc_real r = (if r < 0 then - of_int \<lfloor>- r\<rfloor> else of_int \<lfloor>r\<rfloor>)"

fun xf_rem :: "xf \<Rightarrow> xf \<Rightarrow> xf" where
  "xf_rem (Fin a) (Fin b) = (if b = 0 then NaN else Fin (a - b * trunc_real (a / b)))"
| "xf_rem (Fin a) PInf = Fin a"
| "xf_rem (Fin a) NInf = Fin a"
| "xf_rem _ _ = NaN"

definition is_odd_int :: "real \<Rightarrow> bool" where
  "is_odd_int y \<longleftrightarrow> y \<in> \<int> \<and> odd \<lfloor>y\<rfloor>"

text \<open>\<^verbatim>\<open>powf\<close>: the C99 \<^verbatim>\<open>pow\<close>, finite cases first.\<close>

fun xf_powf :: "xf \<Rightarrow> xf \<Rightarrow> xf" where
  "xf_powf x (Fin y) =
     (if y = 0 then Fin 1
      else case x of
        Fin a \<Rightarrow>
          if a = 1 then Fin 1
          else if 0 < a then Fin (a powr y)
          else if a = 0 then (if 0 < y then Fin 0 else PInf)
          else if y \<in> \<int> then Fin ((if is_odd_int y then -1 else 1) * (- a) powr y)
          else NaN
      | PInf \<Rightarrow> if 0 < y then PInf else Fin 0
      | NInf \<Rightarrow> if 0 < y then (if is_odd_int y then NInf else PInf) else Fin 0
      | NaN \<Rightarrow> NaN)"
| "xf_powf x PInf =
     (case x of
        Fin a \<Rightarrow> if a = 1 then Fin 1 else if \<bar>a\<bar> = 1 then Fin 1
                 else if 1 < \<bar>a\<bar> then PInf else Fin 0
      | NaN \<Rightarrow> NaN
      | _ \<Rightarrow> PInf)"
| "xf_powf x NInf =
     (case x of
        Fin a \<Rightarrow> if \<bar>a\<bar> = 1 then Fin 1 else if 1 < \<bar>a\<bar> then Fin 0 else PInf
      | NaN \<Rightarrow> NaN
      | _ \<Rightarrow> Fin 0)"
| "xf_powf x NaN = (if x = Fin 1 then Fin 1 else NaN)"

fun xf_ln :: "xf \<Rightarrow> xf" where
  "xf_ln (Fin a) = (if 0 < a then Fin (ln a) else if a = 0 then NInf else NaN)"
| "xf_ln PInf = PInf"
| "xf_ln NInf = NaN"
| "xf_ln NaN = NaN"

definition xf_log :: "xf \<Rightarrow> xf \<Rightarrow> xf" where
  "xf_log x base = xf_div (xf_ln x) (xf_ln base)"

fun xf_sqrt :: "xf \<Rightarrow> xf" where
  "xf_sqrt (Fin a) = (if a < 0 then NaN else Fin (sqrt a))"
| "xf_sqrt PInf = PInf"
| "xf_sqrt _ = NaN"

fun xf_trig :: "(real \<Rightarrow> real) \<Rightarrow> xf \<Rightarrow> xf" where
  "xf_trig f (Fin a) = Fin (f a)"
| "xf_trig f _ = NaN"

fun xf_abs :: "xf \<Rightarrow> xf" where
  "xf_abs (Fin a) = Fin \<bar>a\<bar>"
| "xf_abs NaN = NaN"
| "xf_abs _ = PInf"

fun xf_of_lit :: "float_lit \<Rightarrow> xf" where
  "xf_of_lit (Finite_Lit neg m e) =
     Fin ((if neg then -1 else 1) * real m * (if 0 \<le> e then 10 ^ nat e else 1 / 10 ^ nat (- e)))"
| "xf_of_lit (Inf_Lit neg) = (if neg then NInf else PInf)"
| "xf_of_lit (NaN_Lit neg) = NaN"

text \<open>The first \<open>n\<close> decimals of a fraction in \<open>[0, 1)\<close>, trailing zeros dropped.\<close>

fun frac_digits :: "nat \<Rightarrow> real \<Rightarrow> string" where
  "frac_digits 0 r = []"
| "frac_digits (Suc n) r =
     (if r = 0 then []
      else digit_char (nat \<lfloor>10 * r\<rfloor>) # frac_digits n (10 * r - of_int \<lfloor>10 * r\<rfloor>))"

fun xf_show :: "xf \<Rightarrow> string" where
  "xf_show (Fin a) =
     (if a = of_int \<lfloor>a\<rfloor> then show_int \<lfloor>a\<rfloor>
      else (if a < 0 then ''-'' else []) @ show_nat (nat \<lfloor>\<bar>a\<bar>\<rfloor>) @ ''.''
           @ frac_digits 16 (\<bar>a\<bar> - of_int \<lfloor>\<bar>a\<bar>\<rfloor>))"
| "xf_show PInf = ''inf''"
| "xf_show NInf = ''-inf''"
| "xf_show NaN = ''NaN''"

definition xf_ops :: "xf f64_ops" where
  "xf_ops =
     \<lparr>f_add = xf_add, f_sub = xf_sub, f_mul = xf_mul, f_div = xf_div, f_rem = xf_rem,
      f_powf = xf_powf, f_log = xf_log, f_sqrt = xf_sqrt, f_cos = xf_trig cos,
      f_sin = xf_trig sin, f_tan = xf_trig tan, f_abs = xf_abs, f_PI = Fin pi,
      f_E = Fin (exp 1), f_EPSILON = Fin (1 / 2 ^ 52), f_INFINITY = PInf,
      f_of_lit = xf_of_lit, f_show = xf_show\<rparr>"

lemma xf_ops_simps [simp]:
  "f_add xf_ops = xf_add" "f_sub xf_ops = xf_sub" "f_mul xf_ops = xf_mul"
  "f_div xf_ops = xf_div" "f_rem xf_ops = xf_rem" "f_powf xf_ops = xf_powf"
  "f_log xf_ops = xf_log" "f_sqrt xf_ops = xf_sqrt" "f_cos xf_ops = xf_trig cos"
  "f_sin xf_ops = xf_trig sin" "f_tan xf_ops = xf_trig tan" "f_abs xf_ops = xf_abs"
  "f_PI xf_ops = Fin pi" "f_E xf_ops = Fin (exp 1)" "f_EPSILON xf_ops = Fin (1 / 2 ^ 52)"
  "f_INFINITY xf_ops = PInf" "f_of_lit xf_ops = xf_of_lit" "f_show xf_ops = xf_show"
  by (simp_all add: xf_ops_def)

lemma ln_pow_ratio: "0 < b \<Longrightarrow> b \<noteq> 1 \<Longrightarrow> ln ((b::real) ^ n) / ln b = real n"
  by (simp add: ln_realpow)

lemma trunc_real_bounds:
  "\<bar>r - trunc_real r\<bar> < 1 \<and> 0 \<le> (r - trunc_real r) * r \<and> (\<exists>k::int. trunc_real r = of_int k)"
proof (cases "r < 0")
  case True
  let ?f = "of_int \<lfloor>- r\<rfloor> :: real"
  have f: "- r - 1 < ?f" "?f \<le> - r" by linarith+
  have t: "trunc_real r = - ?f" using True by (simp add: trunc_real_def)
  have "r - trunc_real r \<le> 0" using f t by linarith
  then have "0 \<le> (r - trunc_real r) * r" using True by (simp add: mult_nonpos_nonpos)
  moreover have "\<bar>r - trunc_real r\<bar> < 1" using f t by linarith
  moreover have "trunc_real r = of_int (- \<lfloor>- r\<rfloor>)" using t by simp
  ultimately show ?thesis by blast
next
  case False
  let ?f = "of_int \<lfloor>r\<rfloor> :: real"
  have f: "r - 1 < ?f" "?f \<le> r" by linarith+
  have t: "trunc_real r = ?f" using False by (simp add: trunc_real_def)
  have "0 \<le> r - trunc_real r" using f t by linarith
  then have "0 \<le> (r - trunc_real r) * r" using False by simp
  moreover have "\<bar>r - trunc_real r\<bar> < 1" using f t by linarith
  ultimately show ?thesis using t by blast
qed

lemma is_odd_int_of_nat: "is_odd_int (real n) \<longleftrightarrow> odd n"
  by (simp add: is_odd_int_def)

end
