(* ===== verification/Evaluator.thy ===== *)
theory Evaluator
  imports Tokenizer Float_Model
begin

text \<open>
  The evaluator of \<^verbatim>\<open>src/src/main.rs\<close> (lines 43--44 and 58--178): the operand
  stack \<^verbatim>\<open>stack: Vec<f64>\<close>, the per-line \<^verbatim>\<open>variables: HashMap<&str, f64>\<close>, the
  dispatch of one token by the \<^verbatim>\<open>match token\<close> arms, and the end of a line (the
  mandatory pop of the result, the check that the stack is empty, the clearing of the
  variables). Everything is stated over any instance \<open>ops\<close> of the \<^verbatim>\<open>f64\<close> interface.

  The state also holds the two external effects the code performs mid-evaluation:
  \<open>pending\<close>, the replies the line reader will return (\<open>None\<close> is end of input, which
  Ctrl-X also produces), \<open>prompts\<close>, the prompts it has shown, and \<open>out\<close>, the lines
  printed by \<^verbatim>\<open>println!\<close>. Every panic of the source (\<^verbatim>\<open>expect\<close>, \<^verbatim>\<open>unwrap\<close>,
  \<^verbatim>\<open>panic!\<close>) is a value of \<open>rpn_error\<close>, carrying the source's message where it
  has one.

  The abstract specification of the stack discipline is the depth typing
  \<open>depth_run\<close> over the arities of the tokens. The lemmas show the following:
  \<^item> successful evaluation refines it;
  \<^item> its underflow panics;
  \<^item> a well-typed line whose other tokens are literals or variables runs to the
    predicted depth (progress and preservation);
  \<^item> the stack grows by at most one value per token.
\<close>

datatype binop = Add | Sub | Mul | Div | Rem | Pow
datatype unop = Sqrt | Cos | Sin | Tan | Abs
datatype fconst = Const_PI | Const_E | Const_EPSILON | Const_INFINITY
datatype token_kind = Binary binop | Log | Unary unop | Constant fconst | Other

datatype rpn_error =
    Arity_Error string
  | Parse_Error string
  | Prompt_EOF
  | Missing_Result
  | Unconsumed_Values

record 'v rpn_state =
  stack :: "'v list"
  variables :: "string \<rightharpoonup> 'v"
  pending :: "string option list"
  prompts :: "string list"
  out :: "string list"

subsection \<open>Dispatch of a token\<close>

text \<open>The \<^verbatim>\<open>match token\<close> arms in source order, by exact string comparison.\<close>

definition classify :: "string \<Rightarrow> token_kind" where
  "classify token =
     (if token = ''+'' then Binary Add
      else if token = ''-'' then Binary Sub
      else if token = ''*'' then Binary Mul
      else if token = ''/'' then Binary Div
      else if token = ''%'' then Binary Rem
      else if token = ''^'' then Binary Pow
      else if token = ''log'' then Log
      else if token = ''sqrt'' then Unary Sqrt
      else if token = ''cos'' then Unary Cos
      else if token = ''sin'' then Unary Sin
      else if token = ''tan'' then Unary Tan
      else if token = ''abs'' then Unary Abs
      else if token = ''PI'' then Constant Const_PI
      else if token = ''E'' then Constant Const_E
      else if token = ''EPSILON'' then Constant Const_EPSILON
      else if token = ''INFINITY'' then Constant Const_INFINITY
      else Other)"

primrec binop_symbol :: "binop \<Rightarrow> string" where
  "binop_symbol Add = ''+''"
| "binop_symbol Sub = ''-''"
| "binop_symbol Mul = ''*''"
| "binop_symbol Div = ''/''"
| "binop_symbol Rem = ''%''"
| "binop_symbol Pow = ''^''"

primrec apply_binop :: "'v f64_ops \<Rightarrow> binop \<Rightarrow> 'v \<Rightarrow> 'v \<Rightarrow> 'v" where
  "apply_binop ops Add = f_add ops"
| "apply_binop ops Sub = f_sub ops"
| "apply_binop ops Mul = f_mul ops"
| "apply_binop ops Div = f_div ops"
| "apply_binop ops Rem = f_rem ops"
| "apply_binop ops Pow = f_powf ops"

primrec unop_name :: "unop \<Rightarrow> string" where
  "unop_name Sqrt = ''sqrt''"
| "unop_name Cos = ''cos''"
| "unop_name Sin = ''sin''"
| "unop_name Tan = ''tan''"
| "unop_name Abs = ''abs''"

primrec apply_unop :: "'v f64_ops \<Rightarrow> unop \<Rightarrow> 'v \<Rightarrow> 'v" where
  "apply_unop ops Sqrt = f_sqrt ops"
| "apply_unop ops Cos = f_cos ops"
| "apply_unop ops Sin = f_sin ops"
| "apply_unop ops Tan = f_tan ops"
| "apply_unop ops Abs = f_abs ops"

primrec const_name :: "fconst \<Rightarrow> string" where
  "const_name Const_PI = ''PI''"
| "const_name Const_E = ''E''"
| "const_name Const_EPSILON = ''EPSILON''"
| "const_name Const_INFINITY = ''INFINITY''"

primrec const_value :: "'v f64_ops \<Rightarrow> fconst \<Rightarrow> 'v" where
  "const_value ops Const_PI = f_PI ops"
| "const_value ops Const_E = f_E ops"
| "const_value ops Const_EPSILON = f_EPSILON ops"
| "const_value ops Const_INFINITY = f_INFINITY ops"

text \<open>
  The panic messages of the arity checks. Every arm uses the same two strings, which
  name the operator \<^verbatim>\<open>'+'\<close> whatever the token is.
\<close>

definition msg_requires_2 :: string where
  "msg_requires_2 = QUOTE # ''+'' @ QUOTE # '' Requires 2 additional operands''"

definition msg_requires_1 :: string where
  "msg_requires_1 = QUOTE # ''+'' @ QUOTE # '' Requires 1 additional operand''"

text \<open>The \<^verbatim>\<open>println!\<close> formats of the arms and of the result line.\<close>

definition binop_trace :: "'v f64_ops \<Rightarrow> binop \<Rightarrow> 'v \<Rightarrow> 'v \<Rightarrow> 'v \<Rightarrow> string" where
  "binop_trace ops op value1 value0 result =
     [TAB, TAB] @ f_show ops value1 @ '' '' @ binop_symbol op @ '' '' @ f_show ops value0
     @ '' = '' @ f_show ops result"

definition log_trace :: "'v f64_ops \<Rightarrow> 'v \<Rightarrow> 'v \<Rightarrow> 'v \<Rightarrow> string" where
  "log_trace ops value1 value0 result =
     [TAB, TAB] @ ''log('' @ f_show ops value1 @ '', base = '' @ f_show ops value0 @ '') = ''
     @ f_show ops result"

definition unop_trace :: "'v f64_ops \<Rightarrow> unop \<Rightarrow> 'v \<Rightarrow> 'v \<Rightarrow> string" where
  "unop_trace ops f value result =
     [TAB, TAB] @ unop_name f @ ''('' @ f_show ops value @ '') = '' @ f_show ops result"

definition result_line :: "'v f64_ops \<Rightarrow> 'v \<Rightarrow> string" where
  "result_line ops result = [TAB] @ ''= '' @ f_show ops result"

text \<open>The arms \<^verbatim>\<open>"+"\<close> to \<^verbatim>\<open>"^"\<close> (lines 60--101).\<close>

definition eval_binop :: "'v f64_ops \<Rightarrow> binop \<Rightarrow> 'v rpn_state \<Rightarrow> rpn_error + 'v rpn_state" where
  "eval_binop ops op st =
     (case expect (Arity_Error msg_requires_2) (vec_pop (stack st)) of
        Inl e \<Rightarrow> Inl e
      | Inr (value0, s1) \<Rightarrow>
          (case expect (Arity_Error msg_requires_1) (vec_pop s1) of
             Inl e \<Rightarrow> Inl e
           | Inr (value1, s2) \<Rightarrow>
               (let result = apply_binop ops op value1 value0
                in Inr (st\<lparr>stack := vec_push s2 result,
                           out := out st @ [binop_trace ops op value1 value0 result]\<rparr>))))"

text \<open>The \<^verbatim>\<open>"log"\<close> arm (lines 102--108): \<^verbatim>\<open>value1.log(value0)\<close>, the base on top.\<close>

definition eval_log :: "'v f64_ops \<Rightarrow> 'v rpn_state \<Rightarrow> rpn_error + 'v rpn_state" where
  "eval_log ops st =
     (case expect (Arity_Error msg_requires_2) (vec_pop (stack st)) of
        Inl e \<Rightarrow> Inl e
      | Inr (value0, s1) \<Rightarrow>
          (case expect (Arity_Error msg_requires_1) (vec_pop s1) of
             Inl e \<Rightarrow> Inl e
           | Inr (value1, s2) \<Rightarrow>
               (let result = f_log ops value1 value0
                in Inr (st\<lparr>stack := vec_push s2 result,
                           out := out st @ [log_trace ops value1 value0 result]\<rparr>))))"

text \<open>The arms \<^verbatim>\<open>"sqrt"\<close> to \<^verbatim>\<open>"abs"\<close> (lines 109--138).\<close>

definition eval_unop :: "'v f64_ops \<Rightarrow> unop \<Rightarrow> 'v rpn_state \<Rightarrow> rpn_error + 'v rpn_state" where
  "eval_unop ops f st =
     (case expect (Arity_Error msg_requires_1) (vec_pop (stack st)) of
        Inl e \<Rightarrow> Inl e
      | Inr (value, s1) \<Rightarrow>
          (let result = apply_unop ops f value
           in Inr (st\<lparr>stack := vec_push s1 result,
                      out := out st @ [unop_trace ops f value result]\<rparr>)))"

text \<open>
  \<^verbatim>\<open>editline::readline(prompt)\<close>: shows the prompt and returns the next reply, or
  \<open>None\<close> at the end of the input.
\<close>

definition readline :: "string \<Rightarrow> 'v rpn_state \<Rightarrow> string option \<times> 'v rpn_state" where
  "readline prompt st =
     (case pending st of
        [] \<Rightarrow> (None, st\<lparr>prompts := prompts st @ [prompt]\<rparr>)
      | r # rs \<Rightarrow> (r, st\<lparr>pending := rs, prompts := prompts st @ [prompt]\<rparr>))"

text \<open>
  The default arm (lines 149--169): a literal, else a variable of this line, else a
  prompt \<^verbatim>\<open>"\t<token>? "\<close> whose reply must parse (\<^verbatim>\<open>unwrap\<close> and \<^verbatim>\<open>expect\<close>).
\<close>

definition eval_other :: "'v f64_ops \<Rightarrow> string \<Rightarrow> 'v rpn_state \<Rightarrow> rpn_error + 'v rpn_state" where
  "eval_other ops token st =
     (case parse_f64 ops token of
        Some x \<Rightarrow> Inr (st\<lparr>stack := vec_push (stack st) x\<rparr>)
      | None \<Rightarrow>
          (case variables st token of
             Some x \<Rightarrow> Inr (st\<lparr>stack := vec_push (stack st) x\<rparr>)
           | None \<Rightarrow>
               (case readline (TAB # token @ ''? '') st of
                  (None, st1) \<Rightarrow> Inl Prompt_EOF
                | (Some input, st1) \<Rightarrow>
                    (case parse_f64 ops input of
                       None \<Rightarrow> Inl (Parse_Error (''Expected a number, got '' @ token))
                     | Some result \<Rightarrow>
                         Inr (st1\<lparr>variables := (variables st1)(token \<mapsto> result),
                                  stack := vec_push (stack st1) result\<rparr>)))))"

definition eval_token :: "'v f64_ops \<Rightarrow> string \<Rightarrow> 'v rpn_state \<Rightarrow> rpn_error + 'v rpn_state" where
  "eval_token ops token st =
     (case classify token of
        Binary op \<Rightarrow> eval_binop ops op st
      | Log \<Rightarrow> eval_log ops st
      | Unary f \<Rightarrow> eval_unop ops f st
      | Constant c \<Rightarrow> Inr (st\<lparr>stack := vec_push (stack st) (const_value ops c)\<rparr>)
      | Other \<Rightarrow> eval_other ops token st)"

text \<open>The \<^verbatim>\<open>for token in input.split_whitespace()\<close> loop; a panic ends it.\<close>

fun eval_tokens :: "'v f64_ops \<Rightarrow> string list \<Rightarrow> 'v rpn_state \<Rightarrow> rpn_error + 'v rpn_state" where
  "eval_tokens ops [] st = Inr st"
| "eval_tokens ops (t # ts) st =
     (case eval_token ops t st of
        Inl e \<Rightarrow> Inl e
      | Inr st' \<Rightarrow> eval_tokens ops ts st')"

text \<open>Lines 173--178: pop and print the result, require an empty stack, clear the variables.\<close>

definition finish_line :: "'v f64_ops \<Rightarrow> 'v rpn_state \<Rightarrow> rpn_error + 'v rpn_state" where
  "finish_line ops st =
     (case expect Missing_Result (vec_pop (stack st)) of
        Inl e \<Rightarrow> Inl e
      | Inr (result, s1) \<Rightarrow>
          (let st1 = st\<lparr>stack := s1, out := out st @ [result_line ops result]\<rparr>
           in if length s1 \<noteq> 0 then Inl Unconsumed_Values
              else Inr (st1\<lparr>variables := Map.empty\<rparr>)))"

definition eval_line :: "'v f64_ops \<Rightarrow> string \<Rightarrow> 'v rpn_state \<Rightarrow> rpn_error + 'v rpn_state" where
  "eval_line ops input st =
     (case eval_tokens ops (split_whitespace input) st of
        Inl e \<Rightarrow> Inl e
      | Inr st1 \<Rightarrow> finish_line ops st1)"

subsection \<open>The abstract stack discipline\<close>

text \<open>
  The contract of the dispatch, abstracted to the depth of the stack: a token of
  arity \<open>n\<close> needs \<open>n\<close> operands and leaves one value in their place. A line is
  a well-formed RPN expression when the depth never drops below an arity and ends at 1.
\<close>

primrec arity :: "token_kind \<Rightarrow> nat" where
  "arity (Binary op) = 2"
| "arity Log = 2"
| "arity (Unary f) = 1"
| "arity (Constant c) = 0"
| "arity Other = 0"

fun depth_run :: "nat \<Rightarrow> token_kind list \<Rightarrow> nat option" where
  "depth_run n [] = Some n"
| "depth_run n (k # ks) = (if n < arity k then None else depth_run (n - arity k + 1) ks)"

text \<open>A state to run the witnesses from: empty stack, one pending reply \<^verbatim>\<open>3\<close>.\<close>

definition ex_state :: "xf rpn_state" where
  "ex_state = \<lparr>stack = [], variables = Map.empty, pending = [Some ''3''], prompts = [], out = []\<rparr>"

subsection \<open>Dispatch\<close>

lemma classify_binop_symbol [simp]: "classify (binop_symbol op) = Binary op"
  by (cases op) (simp_all add: classify_def)

lemma classify_unop_name [simp]: "classify (unop_name f) = Unary f"
  by (cases f) (simp_all add: classify_def)

lemma classify_const_name [simp]: "classify (const_name c) = Constant c"
  by (cases c) (simp_all add: classify_def)

lemma classify_log [simp]: "classify ''log'' = Log"
  by (simp add: classify_def)

lemma classify_Other_iff:
  "classify t = Other \<longleftrightarrow>
   t \<notin> {''+'', ''-'', ''*'', ''/'', ''%'', ''^'', ''log'', ''sqrt'', ''cos'', ''sin'', ''tan'', ''abs'',
         ''PI'', ''E'', ''EPSILON'', ''INFINITY''}"
  by (simp add: classify_def)

subsection \<open>The arms, one equation per outcome\<close>

lemma eval_binop_two [rpn_simps]:
  "stack st = xs @ [v1, v0] \<Longrightarrow>
   eval_binop ops op st =
     Inr (st\<lparr>stack := xs @ [apply_binop ops op v1 v0],
             out := out st @ [binop_trace ops op v1 v0 (apply_binop ops op v1 v0)]\<rparr>)"
  by (simp add: eval_binop_def vec_pop_two vec_push_def Let_def)

lemma eval_binop_short [rpn_simps]:
  "length (stack st) < 2 \<Longrightarrow>
   eval_binop ops op st = Inl (Arity_Error (if stack st = [] then msg_requires_2 else msg_requires_1))"
  by (cases "stack st") (auto simp: eval_binop_def vec_pop_def)

lemma eval_log_two [rpn_simps]:
  "stack st = xs @ [v1, v0] \<Longrightarrow>
   eval_log ops st =
     Inr (st\<lparr>stack := xs @ [f_log ops v1 v0], out := out st @ [log_trace ops v1 v0 (f_log ops v1 v0)]\<rparr>)"
  by (simp add: eval_log_def vec_pop_two vec_push_def Let_def)

lemma eval_log_short [rpn_simps]:
  "length (stack st) < 2 \<Longrightarrow>
   eval_log ops st = Inl (Arity_Error (if stack st = [] then msg_requires_2 else msg_requires_1))"
  by (cases "stack st") (auto simp: eval_log_def vec_pop_def)

lemma eval_unop_one [rpn_simps]:
  "stack st = xs @ [v] \<Longrightarrow>
   eval_unop ops f st =
     Inr (st\<lparr>stack := xs @ [apply_unop ops f v], out := out st @ [unop_trace ops f v (apply_unop ops f v)]\<rparr>)"
  by (simp add: eval_unop_def vec_push_def Let_def)

lemma eval_unop_empty [rpn_simps]:
  "stack st = [] \<Longrightarrow> eval_unop ops f st = Inl (Arity_Error msg_requires_1)"
  by (simp add: eval_unop_def)

lemma readline_Cons [rpn_simps]:
  "pending st = r # rs \<Longrightarrow> readline p st = (r, st\<lparr>pending := rs, prompts := prompts st @ [p]\<rparr>)"
  by (simp add: readline_def)

lemma readline_Nil [rpn_simps]:
  "pending st = [] \<Longrightarrow> readline p st = (None, st\<lparr>prompts := prompts st @ [p]\<rparr>)"
  by (simp add: readline_def)

lemma eval_other_literal [rpn_simps]:
  "parse_f64 ops t = Some x \<Longrightarrow> eval_other ops t st = Inr (st\<lparr>stack := stack st @ [x]\<rparr>)"
  by (simp add: eval_other_def vec_push_def)

lemma eval_other_known [rpn_simps]:
  "parse_f64 ops t = None \<Longrightarrow> variables st t = Some x \<Longrightarrow>
   eval_other ops t st = Inr (st\<lparr>stack := stack st @ [x]\<rparr>)"
  by (simp add: eval_other_def vec_push_def)

lemma eval_other_prompt [rpn_simps]:
  "parse_f64 ops t = None \<Longrightarrow> variables st t = None \<Longrightarrow> pending st = Some reply # rest \<Longrightarrow>
   eval_other ops t st =
     (case parse_f64 ops reply of
        None \<Rightarrow> Inl (Parse_Error (''Expected a number, got '' @ t))
      | Some v \<Rightarrow> Inr (st\<lparr>pending := rest, prompts := prompts st @ [TAB # t @ ''? ''],
                          variables := (variables st)(t \<mapsto> v), stack := stack st @ [v]\<rparr>))"
  by (simp add: eval_other_def readline_Cons vec_push_def split: option.split)

lemma eval_other_eof [rpn_simps]:
  "parse_f64 ops t = None \<Longrightarrow> variables st t = None \<Longrightarrow>
   pending st = [] \<or> (\<exists>rest. pending st = None # rest) \<Longrightarrow> eval_other ops t st = Inl Prompt_EOF"
  by (auto simp: eval_other_def readline_def)

subsection \<open>Shape of a successful step\<close>

text \<open>
  What each arm does on success: the values it pops, the value it pushes, and the
  parts of the state it leaves alone. The depth refinement and the frame lemmas below
  are proved from these.
\<close>

lemma eval_binop_Inr:
  "eval_binop ops op st = Inr st' \<Longrightarrow>
   \<exists>xs v1 v0. stack st = xs @ [v1, v0] \<and> stack st' = xs @ [apply_binop ops op v1 v0] \<and>
     variables st' = variables st \<and> pending st' = pending st \<and> prompts st' = prompts st \<and>
     length (out st') = Suc (length (out st))"
  by (auto simp: eval_binop_def expect_def vec_push_def Let_def split: option.splits)

lemma eval_log_Inr:
  "eval_log ops st = Inr st' \<Longrightarrow>
   \<exists>xs v1 v0. stack st = xs @ [v1, v0] \<and> stack st' = xs @ [f_log ops v1 v0] \<and>
     variables st' = variables st \<and> pending st' = pending st \<and> prompts st' = prompts st \<and>
     length (out st') = Suc (length (out st))"
  by (auto simp: eval_log_def expect_def vec_push_def Let_def split: option.splits)

lemma eval_unop_Inr:
  "eval_unop ops f st = Inr st' \<Longrightarrow>
   \<exists>xs v. stack st = xs @ [v] \<and> stack st' = xs @ [apply_unop ops f v] \<and>
     variables st' = variables st \<and> pending st' = pending st \<and> prompts st' = prompts st \<and>
     length (out st') = Suc (length (out st))"
  by (auto simp: eval_unop_def expect_def vec_push_def Let_def split: option.splits)

lemma eval_other_Inr:
  "eval_other ops t st = Inr st' \<Longrightarrow>
   \<exists>v. stack st' = stack st @ [v] \<and> suffix (pending st') (pending st) \<and>
     (variables st' = variables st \<or> variables st' = (variables st)(t \<mapsto> v))"
  by (auto simp: eval_other_def readline_def vec_push_def suffix_ConsI
           split: option.splits list.splits prod.splits)

text \<open>Which tokens prompt: the identifiers that are neither keywords nor literals.\<close>

lemma eval_other_prompts:
  "eval_other ops t st = Inr st' \<Longrightarrow>
   out st' = out st \<and>
   dom (variables st') = dom (variables st) \<union> (if parse_f64 ops t = None then {t} else {}) \<and>
   length (prompts st') =
     length (prompts st) + (if parse_f64 ops t = None \<and> t \<notin> dom (variables st) then 1 else 0)"
  by (auto simp: eval_other_def readline_def vec_push_def
           split: option.splits list.splits prod.splits)

lemma eval_token_prompts:
  assumes "eval_token ops t st = Inr st'"
  shows "length (out st') = length (out st) + (if 0 < arity (classify t) then 1 else 0) \<and>
         dom (variables st') =
           dom (variables st) \<union> (if classify t = Other \<and> parse_f64 ops t = None then {t} else {}) \<and>
         length (prompts st') = length (prompts st) +
           (if classify t = Other \<and> parse_f64 ops t = None \<and> t \<notin> dom (variables st) then 1 else 0)"
proof (cases "classify t")
  case (Binary op)
  with assms show ?thesis by (auto simp: eval_token_def dest!: eval_binop_Inr)
next
  case Log
  with assms show ?thesis by (auto simp: eval_token_def dest!: eval_log_Inr)
next
  case (Unary f)
  with assms show ?thesis by (auto simp: eval_token_def dest!: eval_unop_Inr)
next
  case (Constant c)
  with assms show ?thesis by (auto simp: eval_token_def vec_push_def)
next
  case Other
  with assms show ?thesis by (simp add: eval_token_def eval_other_prompts)
qed

lemma eval_token_Inr:
  assumes "eval_token ops t st = Inr st'"
  shows "arity (classify t) \<le> length (stack st) \<and>
         length (stack st') = length (stack st) - arity (classify t) + 1 \<and>
         suffix (pending st') (pending st)"
proof (cases "classify t")
  case (Binary op)
  with assms show ?thesis by (auto simp: eval_token_def dest!: eval_binop_Inr)
next
  case Log
  with assms show ?thesis by (auto simp: eval_token_def dest!: eval_log_Inr)
next
  case (Unary f)
  with assms show ?thesis by (auto simp: eval_token_def dest!: eval_unop_Inr)
next
  case (Constant c)
  with assms show ?thesis by (auto simp: eval_token_def vec_push_def)
next
  case Other
  with assms show ?thesis by (auto simp: eval_token_def dest!: eval_other_Inr)
qed

lemma eval_token_short:
  assumes "length (stack st) < arity (classify t)"
  shows "\<exists>m. eval_token ops t st = Inl (Arity_Error m)"
proof (cases "classify t")
  case (Unary f)
  with assms show ?thesis by (simp add: eval_token_def eval_unop_empty)
qed (use assms in \<open>auto simp: eval_token_def eval_binop_short eval_log_short\<close>)

lemma eval_token_other [rpn_simps]: "classify t = Other \<Longrightarrow> eval_token ops t st = eval_other ops t st"
  by (simp add: eval_token_def)

lemma eval_token_progress:
  assumes ar: "arity (classify t) \<le> length (stack st)"
    and ok: "classify t \<noteq> Other \<or> parse_f64 ops t \<noteq> None \<or> t \<in> dom (variables st)"
  shows "\<exists>st'. eval_token ops t st = Inr st'"
proof (cases "classify t")
  case (Binary op)
  with ar obtain xs a b where "stack st = xs @ [a, b]" by (auto elim: length_ge_two_split)
  with Binary show ?thesis by (simp add: eval_token_def eval_binop_two)
next
  case Log
  with ar obtain xs a b where "stack st = xs @ [a, b]" by (auto elim: length_ge_two_split)
  with Log show ?thesis by (simp add: eval_token_def eval_log_two)
next
  case (Unary f)
  with ar obtain xs a where "stack st = xs @ [a]" by (auto elim: length_ge_snoc_split)
  with Unary show ?thesis by (simp add: eval_token_def eval_unop_one)
next
  case Other
  show ?thesis
  proof (cases "parse_f64 ops t")
    case None
    with ok Other obtain y where "variables st t = Some y" by auto
    with None Other show ?thesis by (simp add: eval_token_def eval_other_known)
  qed (simp add: Other eval_token_def eval_other_literal)
qed (simp add: eval_token_def)

lemma eval_token_dom_mono:
  "eval_token ops t st = Inr st' \<Longrightarrow> dom (variables st) \<subseteq> dom (variables st')"
  by (drule eval_token_prompts) auto

subsection \<open>The token loop and the end of a line\<close>

lemma eval_tokens_append:
  "eval_tokens ops (xs @ ys) st =
     (case eval_tokens ops xs st of Inl e \<Rightarrow> Inl e | Inr st' \<Rightarrow> eval_tokens ops ys st')"
  by (induction xs arbitrary: st) (simp_all split: sum.split)

lemma eval_tokens_Inr:
  "eval_tokens ops ts st = Inr st' \<Longrightarrow>
   depth_run (length (stack st)) (map classify ts) = Some (length (stack st')) \<and>
   suffix (pending st') (pending st)"
proof (induction ts arbitrary: st)
  case Nil
  then show ?case by simp
next
  case (Cons t ts)
  then obtain st1 where step: "eval_token ops t st = Inr st1" and rest: "eval_tokens ops ts st1 = Inr st'"
    by (auto split: sum.splits)
  from step have "arity (classify t) \<le> length (stack st)"
    and "length (stack st1) = length (stack st) - arity (classify t) + 1"
    and "suffix (pending st1) (pending st)"
    using eval_token_Inr by blast+
  with Cons.IH [OF rest] show ?case
    by (auto intro: suffix_order.trans)
qed

lemma eval_token_out: "eval_token ops t st = Inr st' \<Longrightarrow> prefix (out st) (out st')"
  by (auto simp: eval_token_def eval_binop_def eval_log_def eval_unop_def eval_other_def readline_def
      expect_def Let_def split: token_kind.splits option.splits sum.splits prod.splits list.splits)

lemma eval_tokens_out: "eval_tokens ops ts st = Inr st' \<Longrightarrow> prefix (out st) (out st')"
proof (induction ts arbitrary: st)
  case Nil
  then show ?case by simp
next
  case (Cons t ts)
  then show ?case
    by (auto split: sum.splits dest!: eval_token_out intro: prefix_order.trans)
qed

lemma eval_tokens_counts:
  "eval_tokens ops ts st = Inr st' \<Longrightarrow>
   length (out st') = length (out st) + length (filter (\<lambda>t. 0 < arity (classify t)) ts) \<and>
   dom (variables st') =
     dom (variables st) \<union> set (filter (\<lambda>t. classify t = Other \<and> parse_f64 ops t = None) ts) \<and>
   length (prompts st') = length (prompts st) +
     card (set (filter (\<lambda>t. classify t = Other \<and> parse_f64 ops t = None) ts) - dom (variables st))"
proof (induction ts arbitrary: st)
  case Nil
  then show ?case by simp
next
  case (Cons t ts)
  let ?P = "\<lambda>t. classify t = Other \<and> parse_f64 ops t = None"
  let ?U = "set (filter ?P ts)"
  from Cons.prems obtain st1 where step: "eval_token ops t st = Inr st1"
    and rest: "eval_tokens ops ts st1 = Inr st'"
    by (auto split: sum.splits)
  note s = eval_token_prompts [OF step]
  note r = Cons.IH [OF rest]
  have fin: "finite (?U - dom (variables st))" by simp
  show ?case
  proof (cases "?P t")
    case True
    show ?thesis
    proof (cases "t \<in> dom (variables st)")
      case True
      then have "insert t (dom (variables st)) = dom (variables st)" by blast
      with \<open>?P t\<close> s r show ?thesis by (auto simp: insert_Diff_if)
    next
      case False
      let ?X = "?U - dom (variables st)"
      have split: "?U - (dom (variables st) \<union> {t}) = ?X - {t}" by blast
      have "card (insert t ?U - dom (variables st)) = Suc (card (?X - {t}))"
      proof (cases "t \<in> ?U")
        case True
        with False have tX: "t \<in> ?X" by blast
        from True have e: "insert t ?U = ?U" by (rule insert_absorb)
        show ?thesis by (simp only: e card_Suc_Diff1 [OF fin tX])
      next
        case tU: False
        then have "insert t ?U - dom (variables st) = insert t ?X" and "?X - {t} = ?X"
          using False by blast+
        with tU fin show ?thesis by simp
      qed
      with split \<open>?P t\<close> False s r show ?thesis by auto
    qed
  next
    case False
    with s r show ?thesis by auto
  qed
qed

lemma finish_line_single [rpn_simps]:
  "stack st = [v] \<Longrightarrow>
   finish_line ops st = Inr (st\<lparr>stack := [], out := out st @ [result_line ops v], variables := Map.empty\<rparr>)"
  by (simp add: finish_line_def vec_pop_def)

lemma finish_line_Nil [rpn_simps]: "stack st = [] \<Longrightarrow> finish_line ops st = Inl Missing_Result"
  by (simp add: finish_line_def)

lemma finish_line_many [rpn_simps]:
  "2 \<le> length (stack st) \<Longrightarrow> finish_line ops st = Inl Unconsumed_Values"
  by (cases "stack st" rule: rev_cases) (auto simp: finish_line_def Let_def)

lemma finish_line_Inr:
  "finish_line ops st = Inr st' \<Longrightarrow>
   \<exists>v. stack st = [v] \<and> st' = st\<lparr>stack := [], out := out st @ [result_line ops v], variables := Map.empty\<rparr>"
  by (auto simp: finish_line_def expect_def Let_def split: option.splits if_splits)

lemma eval_line_Inr:
  "eval_line ops l st = Inr st' \<Longrightarrow>
   stack st' = [] \<and> variables st' = Map.empty \<and> suffix (pending st') (pending st)"
  by (auto simp: eval_line_def split: sum.splits dest!: finish_line_Inr eval_tokens_Inr)

subsection \<open>Concrete runs on the model \<open>xf_ops\<close>\<close>

lemma split_whitespace_all_blank:
  "\<forall>c \<in> set l. is_whitespace c \<Longrightarrow> split_whitespace l = []"
  by (simp add: split_whitespace_blank dropWhile_eq_Nil_conv)

lemmas rpn_run_defs = eval_token_def classify_def eval_other_def parse_f64_def dec2flt_def
  parse_number_def is_digit_def digits_value_def digit_value_def eval_binop_def eval_log_def
  eval_unop_def expect_def vec_push_def vec_pop_def readline_def finish_line_def eval_line_def
  is_whitespace_def split_whitespace.simps Let_def

lemma run_3_4_plus:
  "eval_line xf_ops ''3 4 +'' ex_state =
     Inr (ex_state\<lparr>out := [binop_trace xf_ops Add (Fin 3) (Fin 4) (Fin 7), result_line xf_ops (Fin 7)]\<rparr>)"
  by (simp add: rpn_run_defs ex_state_def)

lemma run_tokens_1_2:
  "eval_tokens xf_ops (split_whitespace ''1 2'') ex_state = Inr (ex_state\<lparr>stack := [Fin 1, Fin 2]\<rparr>)"
  by (simp add: rpn_run_defs ex_state_def)

lemma run_x_x_plus:
  "eval_line xf_ops ''x x +'' (ex_state\<lparr>pending := [Some ''3'', Some ''4'']\<rparr>) =
     Inr (ex_state\<lparr>pending := [Some ''4''], prompts := [TAB # ''x'' @ ''? ''],
                    out := [binop_trace xf_ops Add (Fin 3) (Fin 3) (Fin 6), result_line xf_ops (Fin 6)]\<rparr>)"
  by (simp add: rpn_run_defs ex_state_def)

lemma split_x_x_plus: "split_whitespace ''x x +'' = [''x'', ''x'', ''+'']"
  by (simp add: split_whitespace.simps is_whitespace_def)

lemma parse_f64_3: "parse_f64 xf_ops ''3'' = Some (Fin 3)"
  by (simp add: rpn_run_defs)

lemma parse_f64_x: "parse_f64 xf_ops ''x'' = None"
  and parse_f64_y: "parse_f64 xf_ops ''y'' = None"
  by (simp_all add: rpn_run_defs)

lemma classify_examples: "classify ''x'' = Other" "classify ''3'' = Other" "classify ''+'' = Binary Add"
  by (simp_all add: classify_def)

subsection \<open>Properties of a token\<close>

text \<open>
  C5: a binary operator with at least two values on the stack pops the top value as
  the right operand \<open>value0\<close> and the one below as the left operand \<open>value1\<close>,
  pushes \<open>value1 op value0\<close> and prints \<^verbatim>\<open>\t\tvalue1 op value0 = result\<close>.
\<close>

theorem eval_token_binop_result:
  "stack st = xs @ [v1, v0] \<Longrightarrow>
   eval_token ops (binop_symbol op) st =
     Inr (st\<lparr>stack := xs @ [apply_binop ops op v1 v0],
             out := out st @ [binop_trace ops op v1 v0 (apply_binop ops op v1 v0)]\<rparr>)"
  by (simp add: eval_token_def eval_binop_two)

theorem eval_token_binop_result_witness:
  "stack (ex_state\<lparr>stack := [Fin 3, Fin 4]\<rparr>) = [] @ [Fin 3, Fin 4] \<and>
   eval_token xf_ops ''-'' (ex_state\<lparr>stack := [Fin 3, Fin 4]\<rparr>) =
     Inr (ex_state\<lparr>stack := [xf_sub (Fin 3) (Fin 4)],
                    out := [binop_trace xf_ops Sub (Fin 3) (Fin 4) (xf_sub (Fin 3) (Fin 4))]\<rparr>)"
  using eval_token_binop_result [of "ex_state\<lparr>stack := [Fin 3, Fin 4]\<rparr>" "[]" "Fin 3" "Fin 4" xf_ops Sub]
  by (simp add: ex_state_def)

text \<open>
  C6: an operator of arity two (the six binary operators and \<^verbatim>\<open>log\<close>) on a stack with
  fewer than two values panics; the message is the one of the \<^verbatim>\<open>'+'\<close> arm for every
  operator: \<^verbatim>\<open>'+' Requires 2 additional operands\<close> on an empty stack and
  \<^verbatim>\<open>'+' Requires 1 additional operand\<close> with one value.
\<close>

theorem eval_token_arity2_underflow:
  "arity (classify t) = 2 \<Longrightarrow> length (stack st) < 2 \<Longrightarrow>
   eval_token ops t st = Inl (Arity_Error (if stack st = [] then msg_requires_2 else msg_requires_1))"
  by (cases "classify t") (simp_all add: eval_token_def eval_binop_short eval_log_short)

theorem eval_token_arity2_underflow_witness:
  "arity (classify ''*'') = 2 \<and> length (stack (ex_state\<lparr>stack := [Fin 1]\<rparr>)) < 2 \<and>
   eval_token xf_ops ''*'' (ex_state\<lparr>stack := [Fin 1]\<rparr>) = Inl (Arity_Error msg_requires_1)"
proof -
  have h: "arity (classify ''*'') = 2" "length (stack (ex_state\<lparr>stack := [Fin 1]\<rparr>)) < 2"
    by (simp_all add: classify_def)
  show ?thesis using h eval_token_arity2_underflow [OF h, of xf_ops] by simp
qed

text \<open>
  \<^verbatim>\<open>log\<close> pops the base \<open>value0\<close> and then the argument \<open>value1\<close>, pushes
  \<^verbatim>\<open>value1.log(value0)\<close> and prints \<^verbatim>\<open>\t\tlog(value1, base = value0) = result\<close>.
\<close>

lemma eval_token_log_result:
  "stack st = xs @ [v1, v0] \<Longrightarrow>
   eval_token ops ''log'' st =
     Inr (st\<lparr>stack := xs @ [f_log ops v1 v0], out := out st @ [log_trace ops v1 v0 (f_log ops v1 v0)]\<rparr>)"
  by (simp add: eval_token_def eval_log_two)

text \<open>
  C7: a unary function (\<^verbatim>\<open>sqrt\<close>, \<^verbatim>\<open>cos\<close>, \<^verbatim>\<open>sin\<close>, \<^verbatim>\<open>tan\<close>,
  \<^verbatim>\<open>abs\<close>) replaces the top value by its image and prints
  \<^verbatim>\<open>\t\tfn(value) = result\<close>; on an empty stack it panics with
  \<^verbatim>\<open>'+' Requires 1 additional operand\<close>.
\<close>

theorem eval_token_unop:
  "eval_token ops (unop_name f) st =
     (case stack st of
        [] \<Rightarrow> Inl (Arity_Error msg_requires_1)
      | _ \<Rightarrow> Inr (st\<lparr>stack := butlast (stack st) @ [apply_unop ops f (last (stack st))],
                     out := out st @ [unop_trace ops f (last (stack st)) (apply_unop ops f (last (stack st)))]\<rparr>))"
proof (cases "stack st" rule: rev_cases)
  case Nil
  then show ?thesis by (simp add: eval_token_def eval_unop_empty)
next
  case (snoc xs v)
  then show ?thesis by (cases xs) (simp_all add: eval_token_def eval_unop_one)
qed

text \<open>
  Any other token that parses as a float literal is pushed as that number, without
  looking at the variables or reading input.
\<close>

lemma eval_token_literal:
  "classify t = Other \<Longrightarrow> parse_f64 ops t = Some x \<Longrightarrow>
   eval_token ops t st = Inr (st\<lparr>stack := stack st @ [x]\<rparr>)"
  by (simp add: eval_token_other eval_other_literal)

text \<open>
  C8: an unknown identifier shows the prompt \<^verbatim>\<open>"\t<token>? "\<close>, consumes exactly one
  reply, and, when it parses, binds the identifier to it for the rest of the line and
  pushes it.
\<close>

theorem eval_token_prompt:
  "classify t = Other \<Longrightarrow> parse_f64 ops t = None \<Longrightarrow> variables st t = None \<Longrightarrow>
   pending st = Some reply # rest \<Longrightarrow> parse_f64 ops reply = Some v \<Longrightarrow>
   eval_token ops t st =
     Inr (st\<lparr>pending := rest, prompts := prompts st @ [TAB # t @ ''? ''],
             variables := (variables st)(t \<mapsto> v), stack := stack st @ [v]\<rparr>)"
  by (simp add: eval_token_other eval_other_prompt)

theorem eval_token_prompt_witness:
  "classify ''x'' = Other \<and> parse_f64 xf_ops ''x'' = None \<and> variables ex_state ''x'' = None \<and>
   pending ex_state = Some ''3'' # [] \<and> parse_f64 xf_ops ''3'' = Some (Fin 3) \<and>
   eval_token xf_ops ''x'' ex_state =
     Inr (ex_state\<lparr>pending := [], prompts := [TAB # ''x'' @ ''? ''],
                    variables := [''x'' \<mapsto> Fin 3], stack := [Fin 3]\<rparr>)"
proof -
  have h: "variables ex_state ''x'' = None" "pending ex_state = Some ''3'' # []"
    by (simp_all add: ex_state_def)
  show ?thesis
    using eval_token_prompt [OF classify_examples(1) parse_f64_x h parse_f64_3]
    by (simp add: classify_examples parse_f64_x parse_f64_3 h ex_state_def)
qed

text \<open>
  C9: if the line reader reports end of input (or Ctrl-X) at the variable prompt, the
  \<^verbatim>\<open>unwrap()\<close> panics.
\<close>

theorem eval_token_prompt_eof:
  "classify t = Other \<Longrightarrow> parse_f64 ops t = None \<Longrightarrow> variables st t = None \<Longrightarrow>
   pending st = [] \<or> (\<exists>rest. pending st = None # rest) \<Longrightarrow> eval_token ops t st = Inl Prompt_EOF"
  by (simp add: eval_token_other eval_other_eof)

theorem eval_token_prompt_eof_witness:
  "classify ''x'' = Other \<and> parse_f64 xf_ops ''x'' = None \<and>
   variables (ex_state\<lparr>pending := []\<rparr>) ''x'' = None \<and> pending (ex_state\<lparr>pending := []\<rparr>) = [] \<and>
   eval_token xf_ops ''x'' (ex_state\<lparr>pending := []\<rparr>) = Inl Prompt_EOF"
proof -
  have h: "variables (ex_state\<lparr>pending := []\<rparr>) ''x'' = None"
    "pending (ex_state\<lparr>pending := []\<rparr>) = [] \<or> (\<exists>rest. pending (ex_state\<lparr>pending := []\<rparr>) = None # rest)"
    by (simp_all add: ex_state_def)
  show ?thesis
    using eval_token_prompt_eof [OF classify_examples(1) parse_f64_x h]
    by (simp add: classify_examples parse_f64_x ex_state_def)
qed

text \<open>
  C10: a reply to the variable prompt that is not a float literal panics with
  \<^verbatim>\<open>Expected a number, got <token>\<close>.
\<close>

theorem eval_token_prompt_parse_error:
  "classify t = Other \<Longrightarrow> parse_f64 ops t = None \<Longrightarrow> variables st t = None \<Longrightarrow>
   pending st = Some reply # rest \<Longrightarrow> parse_f64 ops reply = None \<Longrightarrow>
   eval_token ops t st = Inl (Parse_Error (''Expected a number, got '' @ t))"
  by (simp add: eval_token_other eval_other_prompt)

theorem eval_token_prompt_parse_error_witness:
  "classify ''x'' = Other \<and> parse_f64 xf_ops ''x'' = None \<and>
   variables (ex_state\<lparr>pending := [Some ''y'']\<rparr>) ''x'' = None \<and>
   pending (ex_state\<lparr>pending := [Some ''y'']\<rparr>) = Some ''y'' # [] \<and> parse_f64 xf_ops ''y'' = None \<and>
   eval_token xf_ops ''x'' (ex_state\<lparr>pending := [Some ''y'']\<rparr>) = Inl (Parse_Error ''Expected a number, got x'')"
proof -
  have h: "variables (ex_state\<lparr>pending := [Some ''y'']\<rparr>) ''x'' = None"
    "pending (ex_state\<lparr>pending := [Some ''y'']\<rparr>) = Some ''y'' # []"
    by (simp_all add: ex_state_def)
  show ?thesis
    using eval_token_prompt_parse_error [OF classify_examples(1) parse_f64_x h parse_f64_y]
    by (simp add: classify_examples parse_f64_x parse_f64_y ex_state_def)
qed

subsection \<open>Properties of a line\<close>

text \<open>
  C1: a line that does not panic leaves exactly one value on the stack after its
  tokens; that value is popped and printed as \<^verbatim>\<open>\t= v\<close>, the stack is then empty
  and the variables of the line are cleared.
\<close>

theorem eval_line_ok:
  "eval_line ops l st = Inr st' \<Longrightarrow>
   \<exists>st1 v. eval_tokens ops (split_whitespace l) st = Inr st1 \<and> stack st1 = [v] \<and>
     st' = st1\<lparr>stack := [], out := out st1 @ [result_line ops v], variables := Map.empty\<rparr>"
  by (auto simp: eval_line_def split: sum.splits dest!: finish_line_Inr)

text \<open>
  C2: refinement of the evaluator by the abstract stack discipline: a line evaluated
  from an empty stack without a panic is a well-formed RPN expression, whose depth
  never drops below an operator's arity and ends at exactly one value.
\<close>

theorem eval_line_well_formed:
  "stack st = [] \<Longrightarrow> eval_line ops l st = Inr st' \<Longrightarrow>
   depth_run 0 (map classify (split_whitespace l)) = Some 1"
  by (auto simp: eval_line_def split: sum.splits dest!: finish_line_Inr eval_tokens_Inr)

text \<open>
  C3: where the abstract stack discipline fails (an operator finds fewer operands than
  its arity), evaluation of the tokens panics.
\<close>

theorem eval_tokens_underflow_panics:
  "depth_run (length (stack st)) (map classify ts) = None \<Longrightarrow> \<exists>e. eval_tokens ops ts st = Inl e"
proof (induction ts arbitrary: st)
  case Nil
  then show ?case by simp
next
  case (Cons t ts)
  show ?case
  proof (cases "eval_token ops t st")
    case (Inl e)
    then show ?thesis by simp
  next
    case (Inr st1)
    from eval_token_Inr [OF Inr] have
      "arity (classify t) \<le> length (stack st)"
      "length (stack st1) = length (stack st) - arity (classify t) + 1"
      by blast+
    with Cons.prems have "depth_run (length (stack st1)) (map classify ts) = None"
      by simp
    with Inr Cons.IH show ?thesis by simp
  qed
qed

theorem eval_line_ok_witness:
  "\<exists>st1 v. eval_tokens xf_ops (split_whitespace ''3 4 +'') ex_state = Inr st1 \<and> stack st1 = [v]"
  using eval_line_ok [OF run_3_4_plus] by blast

theorem eval_line_well_formed_witness:
  "depth_run 0 (map classify (split_whitespace ''3 4 +'')) = Some 1"
  using eval_line_well_formed [OF _ run_3_4_plus] by (simp add: ex_state_def)

theorem eval_tokens_underflow_panics_witness:
  "depth_run (length (stack ex_state)) (map classify [''+'']) = None \<and>
   (\<exists>e. eval_tokens xf_ops [''+''] ex_state = Inl e)"
proof -
  have h: "depth_run (length (stack ex_state)) (map classify [''+'']) = None"
    by (simp add: ex_state_def classify_def)
  show ?thesis using h eval_tokens_underflow_panics [OF h, of xf_ops] by simp
qed

text \<open>
  C11: a line whose tokens leave two or more values panics with
  \<^verbatim>\<open>Unconsumed values, stack is not empty!\<close> after printing the top one.
\<close>

theorem eval_line_unconsumed:
  "eval_tokens ops (split_whitespace l) st = Inr st1 \<Longrightarrow> 2 \<le> length (stack st1) \<Longrightarrow>
   eval_line ops l st = Inl Unconsumed_Values"
  by (simp add: eval_line_def finish_line_many)

theorem eval_line_unconsumed_witness:
  "2 \<le> length (stack (ex_state\<lparr>stack := [Fin 1, Fin 2]\<rparr>)) \<and>
   eval_line xf_ops ''1 2'' ex_state = Inl Unconsumed_Values"
proof -
  have h: "2 \<le> length (stack (ex_state\<lparr>stack := [Fin 1, Fin 2]\<rparr>))" by simp
  show ?thesis using h eval_line_unconsumed [OF run_tokens_1_2 h] by simp
qed

text \<open>
  C12: a line of white space only is not an exit request: it has no tokens, so the
  mandatory pop of the result panics with \<^verbatim>\<open>Expected an output, got None\<close>.
\<close>

theorem eval_line_blank:
  "\<forall>c \<in> set l. is_whitespace c \<Longrightarrow> stack st = [] \<Longrightarrow> eval_line ops l st = Inl Missing_Result"
  by (simp add: eval_line_def split_whitespace_all_blank finish_line_Nil)

theorem eval_line_blank_witness:
  "stack ex_state = [] \<and> eval_line xf_ops ''  '' ex_state = Inl Missing_Result"
proof -
  have h: "\<forall>c \<in> set ''  ''. is_whitespace c" "stack ex_state = []"
    by (simp_all add: ex_state_def)
  show ?thesis using h eval_line_blank [OF h, of xf_ops] by simp
qed

text \<open>
  C13: within one line an identifier is prompted for once: its second occurrence
  reuses the value, so \<^verbatim>\<open>x x\<close> consumes one reply and pushes it twice.
\<close>

theorem eval_tokens_variable_reused:
  "classify t = Other \<Longrightarrow> parse_f64 ops t = None \<Longrightarrow> variables st t = None \<Longrightarrow>
   pending st = Some reply # rest \<Longrightarrow> parse_f64 ops reply = Some v \<Longrightarrow>
   eval_tokens ops [t, t] st =
     Inr (st\<lparr>pending := rest, prompts := prompts st @ [TAB # t @ ''? ''],
             variables := (variables st)(t \<mapsto> v), stack := stack st @ [v, v]\<rparr>)"
  by (simp add: eval_token_other eval_other_prompt eval_other_known)

theorem eval_tokens_variable_reused_witness:
  "classify ''x'' = Other \<and> parse_f64 xf_ops ''x'' = None \<and> variables ex_state ''x'' = None \<and>
   pending ex_state = Some ''3'' # [] \<and> parse_f64 xf_ops ''3'' = Some (Fin 3) \<and>
   eval_tokens xf_ops [''x'', ''x''] ex_state =
     Inr (ex_state\<lparr>pending := [], prompts := [TAB # ''x'' @ ''? ''],
                    variables := [''x'' \<mapsto> Fin 3], stack := [Fin 3, Fin 3]\<rparr>)"
proof -
  have h: "variables ex_state ''x'' = None" "pending ex_state = Some ''3'' # []"
    by (simp_all add: ex_state_def)
  show ?thesis
    using eval_tokens_variable_reused [OF classify_examples(1) parse_f64_x h parse_f64_3]
    by (simp add: classify_examples parse_f64_x parse_f64_3 h ex_state_def)
qed

text \<open>
  C14: variables do not outlive their line: after a line ends without a panic, the same
  identifier on the next line is prompted for again and bound afresh.
\<close>

theorem eval_line_variables_reprompted:
  "eval_line ops l st = Inr st' \<Longrightarrow> classify t = Other \<Longrightarrow> parse_f64 ops t = None \<Longrightarrow>
   pending st' = Some reply # rest \<Longrightarrow> parse_f64 ops reply = Some v \<Longrightarrow>
   eval_token ops t st' =
     Inr (st'\<lparr>pending := rest, prompts := prompts st' @ [TAB # t @ ''? ''],
              variables := [t \<mapsto> v], stack := [v]\<rparr>)"
  by (drule eval_line_Inr) (simp add: eval_token_other eval_other_prompt)

theorem eval_line_variables_reprompted_witness:
  "eval_token xf_ops ''x''
     (ex_state\<lparr>pending := [Some ''4''], prompts := [TAB # ''x'' @ ''? ''],
                out := [binop_trace xf_ops Add (Fin 3) (Fin 3) (Fin 6), result_line xf_ops (Fin 6)]\<rparr>) =
   Inr (ex_state\<lparr>pending := [], prompts := [TAB # ''x'' @ ''? '', TAB # ''x'' @ ''? ''],
                  out := [binop_trace xf_ops Add (Fin 3) (Fin 3) (Fin 6), result_line xf_ops (Fin 6)],
                  variables := [''x'' \<mapsto> Fin 4], stack := [Fin 4]\<rparr>)"
proof -
  have p4: "parse_f64 xf_ops ''4'' = Some (Fin 4)" by (simp add: rpn_run_defs)
  show ?thesis
    using eval_line_variables_reprompted [OF run_x_x_plus classify_examples(1) parse_f64_x _ p4]
    by (simp add: ex_state_def)
qed

text \<open>
  C15: a line that does not panic prints one trace line per operator (binary, \<^verbatim>\<open>log\<close>
  and unary) and then the result line; constants, literals and variables print nothing.
\<close>

theorem eval_line_output_lines:
  "eval_line ops l st = Inr st' \<Longrightarrow>
   length (out st') = length (out st) + length (filter (\<lambda>t. 0 < arity (classify t)) (split_whitespace l)) + 1"
  by (auto simp: eval_line_def split: sum.splits dest!: finish_line_Inr eval_tokens_counts)

theorem eval_line_output_lines_witness:
  "length (out (ex_state\<lparr>pending := [Some ''4''], prompts := [TAB # ''x'' @ ''? ''],
     out := [binop_trace xf_ops Add (Fin 3) (Fin 3) (Fin 6), result_line xf_ops (Fin 6)]\<rparr>)) = 2"
  using eval_line_output_lines [OF run_x_x_plus] by (simp add: ex_state_def classify_def split_x_x_plus)

text \<open>
  C16: starting a line with no variables, the line prompts exactly once for each
  distinct identifier in it that is neither a keyword nor a float literal.
\<close>

theorem eval_line_prompt_count:
  "eval_line ops l st = Inr st' \<Longrightarrow> variables st = Map.empty \<Longrightarrow>
   length (prompts st') = length (prompts st) +
     card (set (filter (\<lambda>t. classify t = Other \<and> parse_f64 ops t = None) (split_whitespace l)))"
  by (auto simp: eval_line_def split: sum.splits dest!: finish_line_Inr eval_tokens_counts)

theorem eval_line_prompt_count_witness:
  "variables (ex_state\<lparr>pending := [Some ''3'', Some ''4'']\<rparr>) = Map.empty \<and>
   length (prompts (ex_state\<lparr>pending := [Some ''4''], prompts := [TAB # ''x'' @ ''? ''],
     out := [binop_trace xf_ops Add (Fin 3) (Fin 3) (Fin 6), result_line xf_ops (Fin 6)]\<rparr>)) =
   length (prompts (ex_state\<lparr>pending := [Some ''3'', Some ''4'']\<rparr>)) +
     card (set (filter (\<lambda>t. classify t = Other \<and> parse_f64 xf_ops t = None) (split_whitespace ''x x +'')))"
proof -
  have v: "variables (ex_state\<lparr>pending := [Some ''3'', Some ''4'']\<rparr>) = Map.empty"
    by (simp add: ex_state_def)
  show ?thesis using v eval_line_prompt_count [OF run_x_x_plus v] by simp
qed

text \<open>
  C4: type soundness of the token loop with respect to the abstract stack discipline.
  If the arities of the tokens never exceed the depth (the typing \<open>depth_run\<close>) and
  every token that is not a keyword is a literal or a variable of the line, the loop
  does not panic (progress) and ends at the depth the typing predicts (preservation).
\<close>

theorem eval_tokens_type_sound:
  "depth_run (length (stack st)) (map classify ts) = Some d \<Longrightarrow>
   list_all (\<lambda>t. classify t \<noteq> Other \<or> parse_f64 ops t \<noteq> None \<or> t \<in> dom (variables st)) ts \<Longrightarrow>
   \<exists>st'. eval_tokens ops ts st = Inr st' \<and> length (stack st') = d"
proof (induction ts arbitrary: st)
  case (Cons t ts)
  have ar: "arity (classify t) \<le> length (stack st)"
    using Cons.prems(1) by (simp split: if_splits)
  obtain st1 where step: "eval_token ops t st = Inr st1"
    using eval_token_progress [OF ar] Cons.prems(2) by auto
  have len: "length (stack st1) = length (stack st) - arity (classify t) + 1"
    using eval_token_Inr [OF step] by blast
  have "list_all (\<lambda>t. classify t \<noteq> Other \<or> parse_f64 ops t \<noteq> None \<or> t \<in> dom (variables st1)) ts"
    using Cons.prems(2) eval_token_dom_mono [OF step]
    by (simp only: list.pred_inject(2)) (erule conjE, erule list.pred_mono_strong, blast)
  moreover have "depth_run (length (stack st1)) (map classify ts) = Some d"
    using Cons.prems(1) ar len by simp
  ultimately show ?case using Cons.IH step by simp
qed simp

theorem eval_tokens_type_sound_witness:
  "\<exists>st'. eval_tokens xf_ops [''3'', ''4'', ''+''] ex_state = Inr st' \<and> length (stack st') = 1"
proof -
  have p4: "parse_f64 xf_ops ''4'' = Some (Fin 4)" by (simp add: rpn_run_defs)
  have d: "depth_run (length (stack ex_state)) (map classify [''3'', ''4'', ''+'']) = Some 1"
    by (simp add: classify_def ex_state_def)
  have l: "list_all (\<lambda>t. classify t \<noteq> Other \<or> parse_f64 xf_ops t \<noteq> None \<or>
             t \<in> dom (variables ex_state)) [''3'', ''4'', ''+'']"
    by (simp add: classify_def parse_f64_3 p4)
  show ?thesis using eval_tokens_type_sound [OF d l] .
qed

text \<open>
  Bound on the operand stack: each token pushes at most one value, so after the
  tokens of a line the stack holds at most its initial depth plus the number of tokens.
  The bound is reached by a line of literals.
\<close>

lemma eval_tokens_stack_bound:
  "eval_tokens ops ts st = Inr st' \<Longrightarrow> length (stack st') \<le> length (stack st) + length ts"
proof (induction ts arbitrary: st)
  case (Cons t ts)
  then obtain st1 where step: "eval_token ops t st = Inr st1" and rest: "eval_tokens ops ts st1 = Inr st'"
    by (auto split: sum.splits)
  have "length (stack st1) \<le> Suc (length (stack st))"
    using eval_token_Inr [OF step] by linarith
  with Cons.IH [OF rest] show ?case by simp
qed simp

end
