(* ===== verification/REPL.thy ===== *)
theory REPL
  imports Evaluator
begin

text \<open>
  The read-eval-print loop of \<^verbatim>\<open>main\<close> (\<^verbatim>\<open>src/src/main.rs\<close> lines 38--56 and
  173--179): print the banner, then repeatedly read a line with the prompt
  \<^verbatim>\<open>"> "\<close>, stop on an empty line or end of input (\<^verbatim>\<open>unwrap_or("")\<close>; Ctrl-X is
  bound to end of input), otherwise evaluate the line. The loop is a function on the
  state of theory Evaluator; it terminates because every iteration consumes at least
  one reply of the line reader, the measure of its termination proof. The same loop is
  also given as a state machine: \<open>repl_step\<close> is one evaluated line between two
  AwaitingLine states, and \<open>awaiting\<close> the states reachable from the start, with the
  invariant that the stack is empty and there are no variables.
\<close>

definition banner :: string where
  "banner = ''CODOTAKU RPN 1.0.0'' @ [NEWLINE]
            @ ''Press [Enter] or [Ctrl + X] without typing anything to exit properly.''"

function repl :: "'v f64_ops \<Rightarrow> 'v rpn_state \<Rightarrow> rpn_error + 'v rpn_state" where
  "repl ops st =
     (case readline ''> '' st of
        (r, st1) \<Rightarrow>
          (let input = (case r of None \<Rightarrow> [] | Some s \<Rightarrow> s)
           in if input = [] then Inr st1
              else (case eval_line ops input st1 of
                      Inl e \<Rightarrow> Inl e
                    | Inr st2 \<Rightarrow> repl ops st2)))"
  by pat_completeness auto
termination
proof (relation "measure (\<lambda>(ops, st). length (pending st))")
  fix ops :: "'v f64_ops" and st st1 st2 :: "'v rpn_state" and r input
  assume rd: "(r, st1) = readline ''> '' st"
    and inp: "input = (case r of None \<Rightarrow> [] | Some s \<Rightarrow> s)" and ne: "input \<noteq> []"
    and ev: "eval_line ops input st1 = Inr st2"
  from rd inp ne have "length (pending st1) < length (pending st)"
    by (auto simp: readline_def split: list.splits)
  moreover from ev have "length (pending st2) \<le> length (pending st1)"
    by (auto dest!: eval_line_Inr simp: suffix_length_le)
  ultimately show "((ops, st2), ops, st) \<in> measure (\<lambda>(ops, st). length (pending st))"
    by simp
qed simp

definition init_state :: "string option list \<Rightarrow> 'v rpn_state" where
  "init_state inputs =
     \<lparr>stack = [], variables = Map.empty, pending = inputs, prompts = [], out = [banner]\<rparr>"

text \<open>\<^verbatim>\<open>main\<close> after the editline set-up: the two \<^verbatim>\<open>Vec\<close>/\<^verbatim>\<open>HashMap\<close> start empty.\<close>

definition main_rpn :: "'v f64_ops \<Rightarrow> string option list \<Rightarrow> rpn_error + 'v rpn_state" where
  "main_rpn ops inputs = repl ops (init_state inputs)"

text \<open>One iteration of the loop that evaluates a line and comes back to AwaitingLine.\<close>

inductive repl_step :: "'v f64_ops \<Rightarrow> 'v rpn_state \<Rightarrow> 'v rpn_state \<Rightarrow> bool" for ops where
  line: "readline ''> '' st = (Some input, st1) \<Longrightarrow> input \<noteq> [] \<Longrightarrow>
         eval_line ops input st1 = Inr st2 \<Longrightarrow> repl_step ops st st2"

inductive awaiting :: "'v f64_ops \<Rightarrow> string option list \<Rightarrow> 'v rpn_state \<Rightarrow> bool" for ops inputs where
  start: "awaiting ops inputs (init_state inputs)"
| step: "awaiting ops inputs st \<Longrightarrow> repl_step ops st st' \<Longrightarrow> awaiting ops inputs st'"

inductive_cases repl_stepE: "repl_step ops st st'"

declare repl.simps [simp del]

lemma readline_prompt_Some:
  "readline p st = (Some input, st1) \<Longrightarrow> \<exists>rest. pending st = Some input # rest \<and> pending st1 = rest"
  by (auto simp: readline_def split: list.splits)

lemma repl_step_frame:
  "repl_step ops st st' \<Longrightarrow>
   stack st' = [] \<and> variables st' = Map.empty \<and> length (pending st') < length (pending st) \<and>
   suffix (pending st') (pending st)"
  by (erule repl_stepE)
     (auto dest!: eval_line_Inr readline_prompt_Some dest: suffix_length_le
           simp: suffix_ConsI le_imp_less_Suc)

lemma repl_unfold_exit:
  "readline ''> '' st = (r, st1) \<Longrightarrow> r = None \<or> r = Some [] \<Longrightarrow> repl ops st = Inr st1"
  by (auto simp: repl.simps [of ops st])

lemma repl_unfold_line:
  "readline ''> '' st = (Some input, st1) \<Longrightarrow> input \<noteq> [] \<Longrightarrow>
   repl ops st = (case eval_line ops input st1 of Inl e \<Rightarrow> Inl e | Inr st2 \<Rightarrow> repl ops st2)"
  by (simp add: repl.simps [of ops st])

lemma repl_Inr_inv:
  "repl ops st = Inr st' \<Longrightarrow> stack st = [] \<Longrightarrow> variables st = Map.empty \<Longrightarrow>
   stack st' = [] \<and> variables st' = Map.empty \<and> prefix (out st) (out st')"
proof (induction ops st rule: repl.induct)
  case (1 ops st)
  obtain r st1 where rd: "readline ''> '' st = (r, st1)" by fastforce
  then have st1: "stack st1 = stack st" "variables st1 = variables st" "out st1 = out st"
    by (auto simp: readline_def split: list.splits)
  show ?case
  proof (cases "r = None \<or> r = Some []")
    case True
    with rd "1.prems" st1 show ?thesis by (simp add: repl_unfold_exit)
  next
    case False
    then obtain input where r: "r = Some input" and ne: "input \<noteq> []" by (cases r) auto
    with rd "1.prems"(1) obtain st2 where ev: "eval_line ops input st1 = Inr st2"
      and rec: "repl ops st2 = Inr st'"
      by (auto simp: repl_unfold_line split: sum.splits)
    from ev have "stack st2 = [] \<and> variables st2 = Map.empty"
      by (blast dest: eval_line_Inr)
    moreover from ev have "prefix (out st1) (out st2)"
      by (auto simp: eval_line_def split: sum.splits dest!: finish_line_Inr eval_tokens_out)
    ultimately show ?thesis
      using "1.IH" [OF rd [symmetric] refl] r ne ev rec st1 by (auto intro: prefix_order.trans)
  qed
qed

lemma run_main_3_4_plus:
  "main_rpn xf_ops [Some ''3 4 +''] =
     Inr ((init_state [Some ''3 4 +''])\<lparr>pending := [], prompts := [''> '', ''> ''],
            out := [banner, binop_trace xf_ops Add (Fin 3) (Fin 4) (Fin 7), result_line xf_ops (Fin 7)]\<rparr>)"
  by (simp add: main_rpn_def init_state_def repl.simps rpn_run_defs)

lemma repl_step_3_4_plus:
  "repl_step xf_ops (init_state [Some ''3 4 +''])
     ((init_state [Some ''3 4 +''])\<lparr>pending := [], prompts := [''> ''],
        out := [banner, binop_trace xf_ops Add (Fin 3) (Fin 4) (Fin 7), result_line xf_ops (Fin 7)]\<rparr>)"
proof -
  have rd: "readline ''> '' (init_state [Some ''3 4 +'']) =
    (Some ''3 4 +'', (init_state [Some ''3 4 +''])\<lparr>pending := [], prompts := [''> '']\<rparr>)"
    by (simp add: readline_def init_state_def)
  have ev: "eval_line xf_ops ''3 4 +'' ((init_state [Some ''3 4 +''])\<lparr>pending := [], prompts := [''> '']\<rparr>) =
    Inr ((init_state [Some ''3 4 +''])\<lparr>pending := [], prompts := [''> ''],
        out := [banner, binop_trace xf_ops Add (Fin 3) (Fin 4) (Fin 7), result_line xf_ops (Fin 7)]\<rparr>)"
    by (simp add: init_state_def rpn_run_defs)
  show ?thesis by (rule repl_step.line [OF rd _ ev]) simp
qed

subsection \<open>Properties of the loop\<close>

text \<open>
  C17: in every state in which the loop waits for a line (the start and every state
  after an evaluated line) the stack is empty, there are no variables, and the pending
  input is a suffix of the session's input.
\<close>

theorem awaiting_invariant:
  "awaiting ops inputs st \<Longrightarrow> stack st = [] \<and> variables st = Map.empty \<and> suffix (pending st) inputs"
proof (induction rule: awaiting.induct)
  case start
  then show ?case by (simp add: init_state_def)
next
  case (step st st')
  then show ?case by (auto dest: repl_step_frame intro: suffix_order.trans)
qed

theorem awaiting_invariant_witness:
  "awaiting xf_ops [Some ''3 4 +'']
     ((init_state [Some ''3 4 +''])\<lparr>pending := [], prompts := [''> ''],
        out := [banner, binop_trace xf_ops Add (Fin 3) (Fin 4) (Fin 7), result_line xf_ops (Fin 7)]\<rparr>) \<and>
   stack ((init_state [Some ''3 4 +''])\<lparr>pending := [], prompts := [''> ''],
        out := [banner, binop_trace xf_ops Add (Fin 3) (Fin 4) (Fin 7), result_line xf_ops (Fin 7)]\<rparr>) = []"
proof -
  have a: "awaiting xf_ops [Some ''3 4 +'']
     ((init_state [Some ''3 4 +''])\<lparr>pending := [], prompts := [''> ''],
        out := [banner, binop_trace xf_ops Add (Fin 3) (Fin 4) (Fin 7), result_line xf_ops (Fin 7)]\<rparr>)"
    by (rule awaiting.step [OF awaiting.start repl_step_3_4_plus])
  show ?thesis using a awaiting_invariant [OF a] by (simp add: init_state_def)
qed

text \<open>
  C18: the loop exits without evaluating anything when the line reader reports end of
  input (including Ctrl-X) or returns an empty line; only the prompt is shown.
\<close>

theorem repl_exit:
  "pending st = [] \<or> (\<exists>rest. pending st = None # rest) \<or> (\<exists>rest. pending st = Some [] # rest) \<Longrightarrow>
   repl ops st = Inr (st\<lparr>pending := drop 1 (pending st), prompts := prompts st @ [''> '']\<rparr>)"
  by (auto simp: repl.simps [of ops st] readline_def)

theorem repl_exit_witness:
  "repl xf_ops (init_state [None, Some ''1'']) =
     Inr ((init_state [None, Some ''1''])\<lparr>pending := [Some ''1''], prompts := [''> '']\<rparr>)"
proof -
  have h: "pending (init_state [None, Some ''1'']) = [] \<or>
    (\<exists>rest. pending (init_state [None, Some ''1'']) = None # rest) \<or>
    (\<exists>rest. pending (init_state [None, Some ''1'']) = Some [] # rest)"
    by (simp add: init_state_def)
  show ?thesis using repl_exit [OF h, of xf_ops] by (simp add: init_state_def)
qed

text \<open>
  C19: the loop function refines the state machine: a run that returns has made a
  sequence of \<open>repl_step\<close> transitions and then read an empty line or end of input.
\<close>

theorem repl_refines_steps:
  "repl ops st = Inr st' \<Longrightarrow>
   \<exists>s r. (repl_step ops)\<^sup>*\<^sup>* st s \<and> readline ''> '' s = (r, st') \<and> (r = None \<or> r = Some [])"
proof (induction ops st rule: repl.induct)
  case (1 ops st)
  obtain r st1 where rd: "readline ''> '' st = (r, st1)" by fastforce
  show ?case
  proof (cases "r = None \<or> r = Some []")
    case True
    with rd "1.prems" show ?thesis by (auto simp: repl_unfold_exit)
  next
    case False
    then obtain input where r: "r = Some input" and ne: "input \<noteq> []" by (cases r) auto
    with rd "1.prems" obtain st2 where ev: "eval_line ops input st1 = Inr st2"
      and rec: "repl ops st2 = Inr st'"
      by (auto simp: repl_unfold_line split: sum.splits)
    have step: "repl_step ops st st2"
      using rd r ne ev by (auto intro: repl_step.line)
    from "1.IH" [OF rd [symmetric] refl] r ne ev rec obtain s r' where
      "(repl_step ops)\<^sup>*\<^sup>* st2 s" "readline ''> '' s = (r', st')" "r' = None \<or> r' = Some []"
      by auto
    with step show ?thesis by (blast intro: converse_rtranclp_into_rtranclp)
  qed
qed

theorem repl_refines_steps_witness:
  "\<exists>s r. (repl_step xf_ops)\<^sup>*\<^sup>* (init_state [Some ''3 4 +'']) s \<and>
     readline ''> '' s = (r, (init_state [Some ''3 4 +''])\<lparr>pending := [], prompts := [''> '', ''> ''],
            out := [banner, binop_trace xf_ops Add (Fin 3) (Fin 4) (Fin 7), result_line xf_ops (Fin 7)]\<rparr>) \<and>
     (r = None \<or> r = Some [])"
  using repl_refines_steps [OF run_main_3_4_plus [unfolded main_rpn_def]] .

end
