(* ===== verification/Completion.thy ===== *)
theory Completion
  imports RPN_Prelude
begin

text \<open>
  The completion provider of \<^verbatim>\<open>src/src/main.rs\<close> (lines 7--30): the fixed command
  list \<^verbatim>\<open>CMDS\<close>, \<^verbatim>\<open>list_possib\<close> (every command that starts with the typed word, in
  the order of \<^verbatim>\<open>CMDS\<close>) and \<^verbatim>\<open>complete\<close> (the rest of the only candidate, if there
  is exactly one). The functions are pure; the line editor calls them as callbacks.
  The lemmas show that the loop of \<^verbatim>\<open>list_possib\<close> computes the filter of \<^verbatim>\<open>CMDS\<close>
  by the prefix order of HOL-Library.Sublist, and that \<^verbatim>\<open>complete\<close> returns a suffix
  exactly when the candidate is unique.
\<close>

definition CMDS :: "string list" where
  "CMDS = [''log'', ''cos'', ''sin'', ''tan'', ''sqrt'', ''abs'', ''PI'', ''EPSILON'',
           ''INFINITY'', ''E'']"

text \<open>\<^verbatim>\<open>str::starts_with(self, pat)\<close>, byte by byte.\<close>

fun starts_with :: "string \<Rightarrow> string \<Rightarrow> bool" where
  "starts_with s [] = True"
| "starts_with [] (p # ps) = False"
| "starts_with (c # cs) (p # ps) = (c = p \<and> starts_with cs ps)"

text \<open>The \<^verbatim>\<open>for cmd in &CMDS\<close> loop of \<^verbatim>\<open>list_possib\<close>, with \<open>matches\<close> as accumulator.\<close>

fun list_possib_loop :: "string \<Rightarrow> string list \<Rightarrow> string list \<Rightarrow> string list" where
  "list_possib_loop word matches [] = matches"
| "list_possib_loop word matches (cmd # cmds) =
     list_possib_loop word (if starts_with cmd word then vec_push matches cmd else matches) cmds"

definition list_possib :: "string \<Rightarrow> string list" where
  "list_possib word = list_possib_loop word [] CMDS"

definition complete :: "string \<Rightarrow> string option" where
  "complete word =
     (let possib = list_possib word
      in if length possib = 1 then Some (drop (length word) (possib ! 0)) else None)"

subsection \<open>Prefixes\<close>

lemma starts_with_prefix [simp]: "starts_with s w \<longleftrightarrow> prefix w s"
  by (induction s w rule: starts_with.induct) auto

lemma list_possib_loop_filter:
  "list_possib_loop word ms cmds = ms @ filter (prefix word) cmds"
  by (induction cmds arbitrary: ms) (simp_all add: vec_push_def)

lemma prefix_drop_length: "prefix w c \<Longrightarrow> c = w @ drop (length w) c"
  by (auto simp: prefix_def)

lemma list_possib_eq [rpn_simps]: "list_possib word = filter (prefix word) CMDS"
  by (simp add: list_possib_def list_possib_loop_filter)

lemma distinct_CMDS: "distinct CMDS"
  by (simp add: CMDS_def)

lemma complete_eq [rpn_simps]:
  "complete word = (case list_possib word of [c] \<Rightarrow> Some (drop (length word) c) | _ \<Rightarrow> None)"
  by (auto simp: complete_def Let_def length_Suc_conv split: list.splits)

subsection \<open>The contract of the completion provider\<close>

text \<open>
  C23: \<^verbatim>\<open>list_possib w\<close> holds exactly the commands of \<^verbatim>\<open>CMDS\<close> that start with
  \<open>w\<close>, each once, in the order of \<^verbatim>\<open>CMDS\<close>.
\<close>

theorem list_possib_spec:
  "subseq (list_possib w) CMDS \<and> distinct (list_possib w) \<and>
   set (list_possib w) = {c \<in> set CMDS. prefix w c}"
  by (auto simp: list_possib_eq distinct_CMDS)

text \<open>
  C24: \<^verbatim>\<open>complete w\<close> returns a value exactly when \<^verbatim>\<open>list_possib w\<close> has one
  element, and the value is that command with its first \<open>length w\<close> characters removed.
\<close>

theorem complete_iff:
  "complete w = Some r \<longleftrightarrow> (\<exists>c. list_possib w = [c] \<and> c = w @ r)"
proof -
  have "prefix w c" if "list_possib w = [c]" for c
    using that filter_eq_ConsD [of "prefix w" CMDS c "[]"] by (auto simp: list_possib_eq)
  then show ?thesis
    by (auto simp: complete_eq split: list.splits dest: prefix_drop_length)
qed

end
