(* ===== verification/Session.thy ===== *)
theory Session
  imports REPL Completion
begin

text \<open>
  The set-up and shutdown of \<^verbatim>\<open>main\<close> around the loop (\<^verbatim>\<open>src/src/main.rs\<close> lines
  32--36, 46--49 and 181) and the part of the \<^verbatim>\<open>editline\<close> line editor they rely on.
  The editor is an external library; its behaviour is taken from the specification:
  \<open>readline\<close> returns the typed line, or nothing at end of input or when a key bound to a
  handler returning \<^verbatim>\<open>EOF\<close> is pressed; the lines read are kept as history;
  \<^verbatim>\<open>read_history\<close> appends the lines of the history file (a missing file is no error)
  and \<^verbatim>\<open>write_history\<close> writes every history line followed by a newline. The user is
  modelled by the sequence of events at successive \<open>readline\<close> calls, the file system
  by a map from paths to contents. A panic aborts the process before line 181, so the
  history file is written only at a normal exit.
\<close>

subsection \<open>The line editor\<close>

datatype key = Ctrl char

datatype status = Status_EOF

datatype event = Line string | Key key | Input_End

type_synonym files = "string \<Rightarrow> string option"

record editor =
  list_possib_cb :: "(string \<Rightarrow> string list) option"
  complete_cb :: "(string \<Rightarrow> string option) option"
  bindings :: "key \<Rightarrow> status option"
  history :: "string list"

definition new_editor :: editor where
  "new_editor = \<lparr>list_possib_cb = None, complete_cb = None, bindings = Map.empty, history = []\<rparr>"

definition set_list_possib :: "(string \<Rightarrow> string list) \<Rightarrow> editor \<Rightarrow> editor" where
  "set_list_possib f ed = ed\<lparr>list_possib_cb := Some f\<rparr>"

definition set_complete :: "(string \<Rightarrow> string option) \<Rightarrow> editor \<Rightarrow> editor" where
  "set_complete f ed = ed\<lparr>complete_cb := Some f\<rparr>"

definition bind_key :: "key \<Rightarrow> status \<Rightarrow> editor \<Rightarrow> editor" where
  "bind_key k h ed = ed\<lparr>bindings := (bindings ed)(k \<mapsto> h)\<rparr>"

text \<open>The history file: one line per entry, each followed by a newline.\<close>

definition history_text :: "string list \<Rightarrow> string" where
  "history_text h = concat (map (\<lambda>l. l @ [NEWLINE]) h)"

fun lines_acc :: "string \<Rightarrow> string \<Rightarrow> string list" where
  "lines_acc cur [] = (if cur = [] then [] else [cur])"
| "lines_acc cur (c # s) = (if c = NEWLINE then cur # lines_acc [] s else lines_acc (cur @ [c]) s)"

definition history_lines :: "string \<Rightarrow> string list" where
  "history_lines txt = lines_acc [] txt"

definition read_history :: "string \<Rightarrow> files \<Rightarrow> editor \<Rightarrow> editor" where
  "read_history path fs ed =
     (case fs path of None \<Rightarrow> ed | Some txt \<Rightarrow> ed\<lparr>history := history ed @ history_lines txt\<rparr>)"

definition write_history :: "string \<Rightarrow> editor \<Rightarrow> files \<Rightarrow> files" where
  "write_history path ed fs = fs(path \<mapsto> history_text (history ed))"

text \<open>
  One \<open>readline\<close> call: the reply, the editor afterwards and the events left. A key
  without a binding is ignored; a non-empty line is added to the history.
\<close>

fun el_readline :: "editor \<Rightarrow> event list \<Rightarrow> string option \<times> editor \<times> event list" where
  "el_readline ed [] = (None, ed, [])"
| "el_readline ed (Input_End # evs) = (None, ed, evs)"
| "el_readline ed (Line s # evs) =
     (Some s, if s = [] then ed else ed\<lparr>history := history ed @ [s]\<rparr>, evs)"
| "el_readline ed (Key k # evs) =
     (case bindings ed k of Some Status_EOF \<Rightarrow> (None, ed, evs) | None \<Rightarrow> el_readline ed evs)"

text \<open>The replies of successive \<open>readline\<close> calls, until the events run out.\<close>

function el_session :: "editor \<Rightarrow> event list \<Rightarrow> string option list" where
  "el_session ed evs =
     (if evs = [] then []
      else case el_readline ed evs of (r, ed', evs') \<Rightarrow> r # el_session ed' evs')"
  by pat_completeness auto
termination
proof (relation "measure (\<lambda>(ed, evs). length evs)")
  have shorter: "el_readline ed evs = (r, ed', evs') \<Longrightarrow> evs \<noteq> [] \<Longrightarrow> length evs' < length evs"
    for ed evs r ed' evs'
  proof (induction ed evs arbitrary: r ed' evs' rule: el_readline.induct)
    case (4 ed k evs)
    then show ?case by (cases evs) (auto split: option.splits status.splits)
  qed (auto split: if_splits)
  fix ed evs r x ed' evs'
  assume "evs \<noteq> []" "(r, x) = el_readline ed evs" "(ed', evs') = x"
  then have "el_readline ed evs = (r, ed', evs')" by simp
  with \<open>evs \<noteq> []\<close> \<open>(ed', evs') = x\<close> show "((ed', evs'), ed, evs) \<in> measure (\<lambda>(ed, evs). length evs)"
    using shorter [of ed evs r ed' evs'] by auto
qed simp

text \<open>The editor after \<open>n\<close> \<open>readline\<close> calls.\<close>

fun el_calls :: "nat \<Rightarrow> editor \<Rightarrow> event list \<Rightarrow> editor" where
  "el_calls 0 ed evs = ed"
| "el_calls (Suc n) ed evs = (case el_readline ed evs of (r, ed', evs') \<Rightarrow> el_calls n ed' evs')"

text \<open>The non-empty lines among replies, as the editor records them.\<close>

fun typed_lines :: "string option list \<Rightarrow> string list" where
  "typed_lines [] = []"
| "typed_lines (None # rs) = typed_lines rs"
| "typed_lines (Some s # rs) = (if s = [] then typed_lines rs else s # typed_lines rs)"

text \<open>A line typed at the terminal has no newline in it (Enter ends it).\<close>

fun line_ok :: "event \<Rightarrow> bool" where
  "line_ok (Line s) = (NEWLINE \<notin> set s)"
| "line_ok (Key k) = True"
| "line_ok Input_End = True"

subsection \<open>\<^verbatim>\<open>main\<close>\<close>

definition do_exit :: status where
  "do_exit = Status_EOF"

definition HISTORY_FILENAME :: string where
  "HISTORY_FILENAME = ''/tmp/codotaku.history''"

definition session_editor :: "files \<Rightarrow> editor" where
  "session_editor fs =
     bind_key (Ctrl CHR ''x'') do_exit
       (read_history HISTORY_FILENAME fs
         (set_complete complete (set_list_possib list_possib new_editor)))"

text \<open>
  The whole process: set-up, the loop on the replies the editor gives, and at a normal
  exit \<^verbatim>\<open>write_history\<close> of the editor after as many \<open>readline\<close> calls as prompts
  were shown. The second component is the file system when the process ends.
\<close>

definition main_session ::
  "'v f64_ops \<Rightarrow> files \<Rightarrow> event list \<Rightarrow> (rpn_error + 'v rpn_state) \<times> files" where
  "main_session ops fs evs =
     (let ed = session_editor fs
      in case main_rpn ops (el_session ed evs) of
           Inl e \<Rightarrow> (Inl e, fs)
         | Inr st \<Rightarrow> (Inr st, write_history HISTORY_FILENAME (el_calls (length (prompts st)) ed evs) fs))"

declare el_session.simps [simp del]

subsection \<open>The history file\<close>

lemma lines_acc_append:
  "NEWLINE \<notin> set l \<Longrightarrow> lines_acc cur (l @ NEWLINE # rest) = (cur @ l) # lines_acc [] rest"
  by (induction l arbitrary: cur) auto

lemma history_lines_text:
  "list_all (\<lambda>l. NEWLINE \<notin> set l) h \<Longrightarrow> history_lines (history_text h) = h"
proof (induction h)
  case (Cons l h)
  then show ?case
    by (simp add: history_lines_def history_text_def lines_acc_append)
qed (simp add: history_lines_def history_text_def)

lemma lines_acc_no_newline:
  "NEWLINE \<notin> set cur \<Longrightarrow> list_all (\<lambda>l. NEWLINE \<notin> set l) (lines_acc cur s)"
  by (induction cur s rule: lines_acc.induct) auto

lemma history_lines_no_newline: "list_all (\<lambda>l. NEWLINE \<notin> set l) (history_lines txt)"
  by (simp add: history_lines_def lines_acc_no_newline)

subsection \<open>The editor\<close>

lemma el_session_Nil [simp]: "el_session ed [] = []"
  by (simp add: el_session.simps)

lemma el_session_Cons:
  "evs \<noteq> [] \<Longrightarrow> el_readline ed evs = (r, ed', evs') \<Longrightarrow> el_session ed evs = r # el_session ed' evs'"
  by (simp add: el_session.simps [of ed evs])

lemma typed_lines_append [simp]: "typed_lines (xs @ ys) = typed_lines xs @ typed_lines ys"
  by (induction xs rule: typed_lines.induct) auto

lemma el_readline_editor:
  "el_readline ed evs = (r, ed', evs') \<Longrightarrow>
   history ed' = history ed @ typed_lines [r] \<and> bindings ed' = bindings ed"
  by (induction ed evs arbitrary: r ed' evs' rule: el_readline.induct)
     (auto split: option.splits status.splits if_splits)

lemma el_readline_line_ok:
  "el_readline ed evs = (Some s, ed', evs') \<Longrightarrow> list_all line_ok evs \<Longrightarrow>
   NEWLINE \<notin> set s \<and> list_all line_ok evs'"
  by (induction ed evs arbitrary: s ed' evs' rule: el_readline.induct)
     (auto split: option.splits status.splits)

lemma el_readline_ok_rest:
  "el_readline ed evs = (r, ed', evs') \<Longrightarrow> list_all line_ok evs \<Longrightarrow> list_all line_ok evs'"
  by (induction ed evs arbitrary: r ed' evs' rule: el_readline.induct)
     (auto split: option.splits status.splits)

lemma el_calls_Nil [simp]: "el_calls n ed [] = ed"
  by (induction n) auto

lemma el_calls_history:
  "history (el_calls n ed evs) = history ed @ typed_lines (take n (el_session ed evs))"
proof (induction n arbitrary: ed evs)
  case (Suc n)
  obtain r ed' evs' where rd: "el_readline ed evs = (r, ed', evs')" by (cases "el_readline ed evs") auto
  show ?case
  proof (cases "evs = []")
    case False
    with rd Suc.IH [of ed' evs'] show ?thesis
      by (cases r) (simp_all add: el_session_Cons el_readline_editor [OF rd])
  qed simp
qed simp

lemma typed_lines_session_ok:
  "list_all line_ok evs \<Longrightarrow> list_all (\<lambda>l. NEWLINE \<notin> set l) (typed_lines (take n (el_session ed evs)))"
proof (induction n arbitrary: ed evs)
  case (Suc n)
  obtain r ed' evs' where rd: "el_readline ed evs = (r, ed', evs')" by (cases "el_readline ed evs") auto
  show ?case
  proof (cases "evs = []")
    case False
    have rest: "list_all line_ok evs'" using el_readline_ok_rest [OF rd Suc.prems] .
    show ?thesis
    proof (cases r)
      case (Some s)
      then have "NEWLINE \<notin> set s" using el_readline_line_ok rd Suc.prems by blast
      with Some False rd Suc.IH [OF rest, of ed'] show ?thesis by (simp add: el_session_Cons)
    qed (use False rd Suc.IH [OF rest, of ed'] in \<open>simp add: el_session_Cons\<close>)
  qed simp
qed simp

lemma session_editor_history:
  "history (session_editor fs) = (case fs HISTORY_FILENAME of None \<Rightarrow> [] | Some txt \<Rightarrow> history_lines txt)"
  by (simp add: session_editor_def bind_key_def read_history_def set_complete_def set_list_possib_def
      new_editor_def split: option.splits)

lemma session_editor_bindings:
  "bindings (session_editor fs) = [Ctrl CHR ''x'' \<mapsto> Status_EOF]"
  by (simp add: session_editor_def bind_key_def read_history_def set_complete_def set_list_possib_def
      new_editor_def do_exit_def split: option.splits)

lemma session_editor_history_ok:
  "list_all (\<lambda>l. NEWLINE \<notin> set l) (history (session_editor fs))"
  by (simp add: session_editor_history history_lines_no_newline split: option.splits)

subsection \<open>Properties of a session\<close>

text \<open>
  C20: the process writes no file but the history file, and none at all when it
  panics: a session that ends with a panic loses the lines of the session from the
  history.
\<close>

theorem main_session_files:
  "(\<forall>e. fst (main_session ops fs evs) = Inl e \<longrightarrow> snd (main_session ops fs evs) = fs) \<and>
   (\<forall>p. p \<noteq> HISTORY_FILENAME \<longrightarrow> snd (main_session ops fs evs) p = fs p)"
  by (auto simp: main_session_def write_history_def Let_def split: sum.splits)

theorem main_session_files_witness:
  "fst (main_session xf_ops [HISTORY_FILENAME \<mapsto> ''2 3 +'' @ [NEWLINE]] [Line ''1 2'']) = Inl Unconsumed_Values \<and>
   snd (main_session xf_ops [HISTORY_FILENAME \<mapsto> ''2 3 +'' @ [NEWLINE]] [Line ''1 2'']) =
     [HISTORY_FILENAME \<mapsto> ''2 3 +'' @ [NEWLINE]]"
proof -
  have s: "el_session (session_editor [HISTORY_FILENAME \<mapsto> ''2 3 +'' @ [NEWLINE]]) [Line ''1 2''] = [Some ''1 2'']"
    by (simp add: el_session_Cons)
  have f: "fst (main_session xf_ops [HISTORY_FILENAME \<mapsto> ''2 3 +'' @ [NEWLINE]] [Line ''1 2'']) = Inl Unconsumed_Values"
    unfolding main_session_def Let_def s
    by (simp add: main_rpn_def init_state_def repl.simps rpn_run_defs)
  show ?thesis using f main_session_files [of xf_ops "[HISTORY_FILENAME \<mapsto> ''2 3 +'' @ [NEWLINE]]" "[Line ''1 2'']"]
    by simp
qed

text \<open>
  C21: history persists across sessions: after a normal exit, the next session starts
  with the history the previous one read followed by every non-empty line this session
  read, commands and variable values alike, in order (write_history then read_history is
  the identity on the history).
\<close>

theorem main_session_history:
  assumes "main_session ops fs evs = (Inr st, fs')" and "list_all line_ok evs"
  shows "history (session_editor fs') =
           history (session_editor fs) @
           typed_lines (take (length (prompts st)) (el_session (session_editor fs) evs))"
proof -
  let ?ed = "session_editor fs"
  let ?n = "length (prompts st)"
  have fs': "fs' = write_history HISTORY_FILENAME (el_calls ?n ?ed evs) fs"
    using assms(1) by (auto simp: main_session_def Let_def split: sum.splits)
  have ok: "list_all (\<lambda>l. NEWLINE \<notin> set l) (history (el_calls ?n ?ed evs))"
    using session_editor_history_ok typed_lines_session_ok [OF assms(2)]
    by (simp add: el_calls_history)
  show ?thesis
    using history_lines_text [OF ok]
    by (simp add: fs' session_editor_history write_history_def el_calls_history)
qed

theorem main_session_history_witness:
  "history (session_editor (snd (main_session xf_ops [HISTORY_FILENAME \<mapsto> ''1 1 +'' @ [NEWLINE]]
      [Line ''3 4 +'']))) = [''1 1 +'', ''3 4 +'']"
proof -
  let ?fs = "[HISTORY_FILENAME \<mapsto> ''1 1 +'' @ [NEWLINE]]"
  let ?st = "(init_state [Some ''3 4 +''])\<lparr>pending := [], prompts := [''> '', ''> ''],
            out := [banner, binop_trace xf_ops Add (Fin 3) (Fin 4) (Fin 7), result_line xf_ops (Fin 7)]\<rparr>"
  have s: "el_session (session_editor ?fs) [Line ''3 4 +''] = [Some ''3 4 +'']"
    by (simp add: el_session_Cons)
  have m: "main_session xf_ops ?fs [Line ''3 4 +''] =
      (Inr ?st, write_history HISTORY_FILENAME (el_calls 2 (session_editor ?fs) [Line ''3 4 +'']) ?fs)"
    unfolding main_session_def Let_def s run_main_3_4_plus by (simp add: numeral_2_eq_2)
  have ok: "list_all line_ok [Line ''3 4 +'']" by simp
  have h: "history (session_editor ?fs) = [''1 1 +'']"
    by (simp add: session_editor_history history_lines_def)
  show ?thesis unfolding m snd_conv using main_session_history [OF m ok] h s by simp
qed

text \<open>
  C22: the Ctrl-X binding: pressing Ctrl-X at the first prompt ends the process normally
  whatever input follows, with only the banner printed and the history file rewritten.
\<close>

theorem ctrl_x_ends_session:
  "main_session ops fs (Key (Ctrl CHR ''x'') # evs) =
     (Inr ((init_state (None # el_session (session_editor fs) evs))
             \<lparr>pending := el_session (session_editor fs) evs, prompts := [''> '']\<rparr>),
      write_history HISTORY_FILENAME (session_editor fs) fs)"
proof -
  have rd: "el_readline (session_editor fs) (Key (Ctrl CHR ''x'') # evs) = (None, session_editor fs, evs)"
    by (simp add: session_editor_bindings)
  have s: "el_session (session_editor fs) (Key (Ctrl CHR ''x'') # evs) = None # el_session (session_editor fs) evs"
    using el_session_Cons [OF _ rd] by simp
  have m: "main_rpn ops (None # el_session (session_editor fs) evs) =
      Inr ((init_state (None # el_session (session_editor fs) evs))
             \<lparr>pending := el_session (session_editor fs) evs, prompts := [''> '']\<rparr>)"
    by (simp add: main_rpn_def repl_unfold_exit readline_def init_state_def)
  show ?thesis
    using rd by (simp add: main_session_def s m Let_def)
qed

end
