(* ===== verification/Binary64.thy ===== *)
theory Binary64
  imports Float_Model
begin

text \<open>
  IEEE 754 binary64 rounding: \<open>round64\<close> rounds a real to nearest, ties to even, onto the
  grid of the unit in the last place \<open>ulp_exp\<close>, with gradual underflow to the
  subnormals and overflow to the infinities from the threshold \<open>T64\<close>. The binary64
  values are given by their encoding (\<open>valof64\<close>: sign, 11-bit biased exponent, 52-bit
  fraction). Proved here: every binary64 value is an integer below \<open>2^53\<close> times a power
  of two and conversely, the rounding returns the nearest binary64 value, its absolute
  and relative error, and that binary64 values are fixed by it.
\<close>

text \<open>The overflow threshold: the midpoint between the largest finite binary64 and \<open>2^1024\<close>.\<close>

definition T64 :: real where
  "T64 = 2 ^ 1024 - 2 ^ 970"

text \<open>The exponent of the unit in the last place of \<open>x\<close> (fixed at \<open>-1074\<close> for subnormals).\<close>

definition ulp_exp :: "real \<Rightarrow> int" where
  "ulp_exp x = max \<lfloor>log 2 \<bar>x\<bar>\<rfloor> (-1022) - 52"

text \<open>Rounding a real to an integer, to nearest with ties to the even neighbour.\<close>

definition round_even :: "real \<Rightarrow> int" where
  "round_even m =
     (let f = \<lfloor>m\<rfloor>; d = m - of_int f
      in if d < 1/2 then f else if 1/2 < d then f + 1 else if even f then f else f + 1)"

text \<open>roundTiesToEven of a real to binary64, with overflow to the signed infinities.\<close>

definition round64 :: "real \<Rightarrow> xf" where
  "round64 x =
     (if T64 \<le> x then PInf else if x \<le> - T64 then NInf
      else Fin (of_int (round_even (x / 2 powr ulp_exp x)) * 2 powr ulp_exp x))"

text \<open>The value of a finite binary64 encoding (sign, biased exponent below 2047, fraction).\<close>

definition valof64 :: "bool \<Rightarrow> nat \<Rightarrow> nat \<Rightarrow> real" where
  "valof64 s e f =
     (if s then -1 else 1) *
     (if e = 0 then 2 powr -1022 * (real f / 2 ^ 52) else 2 powr (real e - 1023) * (1 + real f / 2 ^ 52))"

text \<open>The finite binary64 values.\<close>

definition is_double :: "real \<Rightarrow> bool" where
  "is_double y \<longleftrightarrow> (\<exists>s. \<exists>e<2047. \<exists>f<2 ^ 52. y = valof64 s e f)"

lemma round_even_nearest: "\<bar>of_int (round_even m) - m\<bar> \<le> \<bar>of_int j - m\<bar>"
proof -
  define f where "f = \<lfloor>m\<rfloor>"
  have f: "of_int f \<le> m" "m < of_int f + 1" by (simp_all add: f_def)
  have "j \<le> f \<or> f + 1 \<le> j" by linarith
  then have "real_of_int j \<le> of_int f \<or> of_int f + 1 \<le> real_of_int j"
    by (metis of_int_le_iff of_int_add of_int_1)
  then have j: "min (m - of_int f) (of_int f + 1 - m) \<le> \<bar>of_int j - m\<bar>"
    using f by (elim disjE) (simp_all add: min_le_iff_disj abs_if)
  have "\<bar>of_int (round_even m) - m\<bar> \<le> min (m - of_int f) (of_int f + 1 - m)"
    using f by (auto simp: round_even_def Let_def f_def [symmetric] abs_if)
  with j show ?thesis by linarith
qed

lemma round_even_half: "\<bar>of_int (round_even m) - m\<bar> \<le> 1/2"
  by (auto simp: round_even_def Let_def abs_if) linarith+

lemma round_even_int [simp]: "round_even (of_int k) = k"
  by (simp add: round_even_def)

lemma log_floor_bounds:
  assumes "x \<noteq> 0"
  shows "2 powr \<lfloor>log 2 \<bar>x\<bar>\<rfloor> \<le> \<bar>x\<bar> \<and> \<bar>x\<bar> < 2 powr (\<lfloor>log 2 \<bar>x\<bar>\<rfloor> + 1)"
  using floor_log_eq_powr_iff [of "\<bar>x\<bar>" 2 "\<lfloor>log 2 \<bar>x\<bar>\<rfloor>"] assms by simp

lemma round_even_ge: "of_int n \<le> m \<Longrightarrow> n \<le> round_even m"
proof -
  assume "of_int n \<le> m"
  then have "n \<le> \<lfloor>m\<rfloor>" by (simp add: le_floor_iff)
  then show ?thesis by (auto simp: round_even_def Let_def)
qed

lemma round_even_le: "m \<le> of_int n \<Longrightarrow> round_even m \<le> n"
proof -
  assume mn: "m \<le> of_int n"
  then have fl: "\<lfloor>m\<rfloor> \<le> n" by (simp add: floor_le_iff)
  show ?thesis
  proof (cases "\<lfloor>m\<rfloor> = n")
    case True
    with mn have "m = of_int n" by (metis floor_correct order_antisym)
    then show ?thesis by simp
  next
    case False
    with fl show ?thesis by (auto simp: round_even_def Let_def)
  qed
qed

lemma powr2_int_pos [simp]: "0 < (2::real) powr q"
  by simp

lemma double_mq:
  assumes "is_double y"
  shows "\<exists>m q. y = of_int m * 2 powr of_int q \<and> \<bar>m\<bar> < 2 ^ 53 \<and> -1074 \<le> q \<and> q \<le> 971"
proof -
  from assms obtain s e f where e: "e < 2047" and f: "f < (2::nat) ^ 52" and y: "y = valof64 s e f"
    by (auto simp: is_double_def)
  define sg :: int where "sg = (if s then -1 else 1)"
  show ?thesis
  proof (cases "e = 0")
    case True
    have "2 powr -1022 * (real f / 2 ^ 52) = real f * 2 powr (-1074::real)"
      by (simp add: powr_minus divide_simps powr_realpow [symmetric] powr_add [symmetric])
    then have "y = of_int (sg * int f) * 2 powr of_int (-1074)"
      using True by (simp add: y valof64_def sg_def)
    moreover have "\<bar>sg * int f\<bar> < 2 ^ 53" using f by (simp add: sg_def abs_mult)
    ultimately show ?thesis by fastforce
  next
    case False
    have "2 powr (real e - 1023) * (1 + real f / 2 ^ 52) = (2 ^ 52 + real f) * 2 powr (real e - 1075)"
    proof -
      have "2 powr (real e - 1023) = 2 powr ((real e - 1075) + 52)" by simp
      also have "\<dots> = 2 powr (real e - 1075) * 2 ^ 52" by (simp only: powr_add) simp
      finally have "2 powr (real e - 1023) = 2 powr (real e - 1075) * 2 ^ 52" .
      then show ?thesis by (simp add: field_simps)
    qed
    then have "y = of_int (sg * (2 ^ 52 + int f)) * 2 powr of_int (int e - 1075)"
      using False by (simp add: y valof64_def sg_def)
    moreover have "\<bar>sg * (2 ^ 52 + int f)\<bar> < 2 ^ 53" using f by (simp add: sg_def abs_mult)
    moreover have "-1074 \<le> int e - 1075 \<and> int e - 1075 \<le> 971" using e False by simp
    ultimately show ?thesis by blast
  qed
qed

lemma powr2_add_nat: "(2::real) powr (a + real n) = 2 powr a * 2 ^ n"
  by (simp add: powr_add powr_realpow)

lemma powr2_mono: "a \<le> b \<Longrightarrow> (2::real) powr a \<le> 2 powr b"
  by (rule powr_mono) simp_all

lemma valof64_sign: "valof64 s e f = (if s then -1 else 1) * valof64 False e f"
  by (simp add: valof64_def)

lemma mq_double:
  fixes m q :: int
  assumes m: "\<bar>m\<bar> \<le> 2 ^ 53" and q: "-1074 \<le> q" and nz: "q = -1074 \<or> 2 ^ 52 \<le> \<bar>m\<bar>"
    and lt: "\<bar>of_int m * (2::real) powr of_int q\<bar> < 2 powr 1024"
  shows "is_double (of_int m * 2 powr of_int q)"
proof -
  define s where "s = (m < 0)"
  have sm: "of_int m * (2::real) powr of_int q = (if s then -1 else 1) * (of_int \<bar>m\<bar> * 2 powr of_int q)"
    by (simp add: s_def)
  have abs_val: "\<bar>of_int m * (2::real) powr of_int q\<bar> = of_int \<bar>m\<bar> * 2 powr of_int q"
    by (simp add: abs_mult)
  have "\<exists>e<2047. \<exists>f<2 ^ 52. of_int \<bar>m\<bar> * (2::real) powr of_int q = valof64 False e f"
  proof (cases "\<bar>m\<bar> = 2 ^ 53")
    case True
    have v: "of_int \<bar>m\<bar> * (2::real) powr of_int q = 2 powr (of_int q + 53)"
      using True by (simp add: powr2_add_nat [of _ 53, simplified])
    then have "of_int q + 53 < (1024::real)"
      using lt abs_val powr_less_cancel_iff [of 2 "of_int q + 53" 1024] by simp
    then have qb: "q \<le> 970" by linarith
    have "valof64 False (nat (q + 1076)) 0 = 2 powr (of_int q + 53)"
      using q by (simp add: valof64_def add.commute)
    then show ?thesis using v qb q
      by (intro exI [of _ "nat (q + 1076)"] conjI exI [of _ 0]) auto
  next
    case False
    show ?thesis
    proof (cases "2 ^ 52 \<le> \<bar>m\<bar>")
      case True
      define f where "f = nat (\<bar>m\<bar> - 2 ^ 52)"
      have fr: "real f = of_int \<bar>m\<bar> - 2 ^ 52" using True by (simp add: f_def)
      have flt: "f < 2 ^ 52" using m False by (simp add: f_def nat_less_iff)
      have "(2::real) powr (of_int q + 52) \<le> of_int \<bar>m\<bar> * 2 powr of_int q"
        using True by (simp add: powr2_add_nat [of _ 52, simplified])
      then have "(2::real) powr (of_int q + 52) < 2 powr 1024" using lt abs_val by linarith
      then have "of_int q + 52 < (1024::real)"
        using powr_less_cancel_iff [of 2 "of_int q + 52" 1024] by simp
      then have qb: "q \<le> 971" by linarith
      have "valof64 False (nat (q + 1075)) f = 2 powr (of_int q + 52) * (1 + real f / 2 ^ 52)"
        using q by (simp add: valof64_def add.commute)
      also have "\<dots> = of_int \<bar>m\<bar> * 2 powr of_int q"
        by (simp add: powr2_add_nat [of _ 52, simplified] fr field_simps)
      finally show ?thesis using qb q flt
        by (intro exI [of _ "nat (q + 1075)"] conjI exI [of _ f]) auto
    next
      case small: False
      with nz have q0: "q = -1074" by simp
      have "valof64 False 0 (nat \<bar>m\<bar>) = of_int \<bar>m\<bar> * 2 powr of_int q"
      proof -
        have "(2::real) powr -1022 = 2 powr (-1074) * 2 ^ 52"
          using powr2_add_nat [of "-1074" 52] by simp
        then show ?thesis by (simp add: valof64_def q0)
      qed
      moreover have "nat \<bar>m\<bar> < 2 ^ 52" using small by (simp add: nat_less_iff)
      ultimately show ?thesis by (intro exI [of _ 0] conjI exI [of _ "nat \<bar>m\<bar>"]) auto
    qed
  qed
  then obtain e f where "e < 2047" "f < 2 ^ 52" "of_int \<bar>m\<bar> * (2::real) powr of_int q = valof64 False e f"
    by blast
  then show ?thesis
    unfolding is_double_def using sm valof64_sign [of s e f] by metis
qed

lemma round64_Fin:
  "\<bar>x\<bar> < T64 \<Longrightarrow> round64 x = Fin (of_int (round_even (x / 2 powr ulp_exp x)) * 2 powr ulp_exp x)"
  by (simp add: round64_def abs_less_iff not_le)

lemma round_even_zero [simp]: "round_even 0 = 0"
  by (simp add: round_even_def)

lemma T64_lt: "T64 < 2 powr 1024"
  by (simp add: T64_def)

lemma ulp_exp_bounds:
  assumes "x \<noteq> 0"
  shows "\<bar>x\<bar> < 2 powr (ulp_exp x + 53) \<and> -1074 \<le> ulp_exp x \<and>
         (ulp_exp x = -1074 \<or> 2 powr (ulp_exp x + 52) \<le> \<bar>x\<bar>) \<and>
         (2 powr -1022 \<le> \<bar>x\<bar> \<longrightarrow> 2 powr (ulp_exp x + 52) \<le> \<bar>x\<bar>)"
proof -
  define e where "e = \<lfloor>log 2 \<bar>x\<bar>\<rfloor>"
  have b: "2 powr e \<le> \<bar>x\<bar>" "\<bar>x\<bar> < 2 powr (real_of_int e + 1)"
    using log_floor_bounds [OF assms] by (simp_all add: e_def)
  show ?thesis
  proof (cases "-1022 \<le> e")
    case True
    then have q: "ulp_exp x = e - 52" by (simp add: ulp_exp_def e_def)
    show ?thesis using b True by (simp add: q ac_simps)
  next
    case False
    then have q: "ulp_exp x = -1074" by (simp add: ulp_exp_def e_def)
    have "\<bar>x\<bar> < 2 powr (real_of_int e + 1)" by (rule b(2))
    also have "\<dots> \<le> 2 powr (-1021)" using False by simp
    finally have lt: "\<bar>x\<bar> < 2 powr (-1021)" .
    have "\<not> 2 powr -1022 \<le> \<bar>x\<bar>"
    proof
      assume "2 powr -1022 \<le> \<bar>x\<bar>"
      with b(2) have "2 powr -1022 < 2 powr (real_of_int e + 1)" by linarith
      then have "-1022 < real_of_int e + 1"
        using powr_less_cancel_iff [of 2 "-1022" "real_of_int e + 1"] by simp
      with False show False by linarith
    qed
    then show ?thesis using lt by (simp add: q)
  qed
qed

lemma div_powr_bound: "\<bar>x\<bar> < 2 powr (q + n) \<Longrightarrow> \<bar>x / 2 powr q\<bar> < (2::real) powr n"
  by (simp add: powr_add divide_simps abs_divide mult.commute)

lemma round64_double:
  assumes "\<bar>x\<bar> < T64"
  shows "\<exists>y. round64 x = Fin y \<and> is_double y"
proof (cases "x = 0")
  case True
  have "is_double 0" unfolding is_double_def
    by (rule exI [of _ False], rule exI [of _ 0], simp, rule exI [of _ 0]) (simp add: valof64_def)
  then show ?thesis using True assms by (simp add: round64_Fin)
next
  case False
  define q where "q = ulp_exp x"
  define k where "k = round_even (x / 2 powr q)"
  note bnd = ulp_exp_bounds [OF False, folded q_def]
  have m: "\<bar>x / 2 powr q\<bar> < 2 ^ 53" using div_powr_bound [of x q 53] bnd by simp
  then have "x / 2 powr q < 2 ^ 53 \<and> - (x / 2 powr q) < 2 ^ 53" by (simp only: abs_less_iff)
  then have "- (2 ^ 53) \<le> x / 2 powr q" "x / 2 powr q \<le> 2 ^ 53" by linarith+
  then have kb: "\<bar>k\<bar> \<le> 2 ^ 53"
    using round_even_le [of "x / 2 powr q" "2 ^ 53"] round_even_ge [of "- (2 ^ 53)" "x / 2 powr q"]
    by (simp add: k_def abs_le_iff)
  have nz: "q = -1074 \<or> 2 ^ 52 \<le> \<bar>k\<bar>"
  proof (cases "q = -1074")
    case False
    with bnd have "2 powr (q + 52) \<le> \<bar>x\<bar>" by simp
    then have "2 ^ 52 \<le> \<bar>x / 2 powr q\<bar>" by (simp add: powr_add divide_simps abs_divide)
    then have "2 ^ 52 \<le> x / 2 powr q \<or> x / 2 powr q \<le> - (2 ^ 52)" by linarith
    then show ?thesis
      using round_even_ge [of "2 ^ 52" "x / 2 powr q"] round_even_le [of "x / 2 powr q" "- (2 ^ 52)"]
      by (auto simp: k_def)
  qed simp
  have lt: "\<bar>of_int k * (2::real) powr of_int q\<bar> < 2 powr 1024"
  proof -
    have xb: "\<bar>x\<bar> < 2 powr 1024" using assms T64_lt by linarith
    have "\<bar>of_int k - x / 2 powr q\<bar> \<le> 1/2" using round_even_half by (simp add: k_def)
    then have "\<bar>of_int k * 2 powr q - x\<bar> \<le> 2 powr q / 2"
      by (simp add: divide_simps abs_divide abs_mult flip: abs_mult_pos)
    then have err: "\<bar>of_int k * 2 powr q\<bar> \<le> \<bar>x\<bar> + 2 powr q / 2" by linarith
    have q971: "q \<le> 971"
    proof (cases "q = -1074")
      case False
      with bnd have "2 powr (q + 52) \<le> \<bar>x\<bar>" by simp
      with xb have "2 powr (q + 52) < 2 powr 1024" by linarith
      then have "real_of_int q + 52 < 1024"
        using powr_less_cancel_iff [of 2 "real_of_int q + 52" 1024] by simp
      then show ?thesis by linarith
    qed simp
    show ?thesis
    proof (cases "q = 971")
      case True
      then have "2 powr q / 2 = (2::real) ^ 970" by (simp add: powr_realpow [symmetric] powr_diff)
      with err assms show ?thesis by (simp add: T64_def)
    next
      case False
      with q971 have "q \<le> 970" by simp
      then have p: "2 powr q \<le> (2::real) powr 970" by (intro powr2_mono) simp
      have "\<bar>x\<bar> < 2 powr (q + 53)" using bnd by simp
      also have "\<dots> \<le> 2 powr 1023" using \<open>q \<le> 970\<close> by (intro powr2_mono) simp
      finally have "\<bar>x\<bar> < 2 powr 1023" .
      with err p show ?thesis by simp
    qed
  qed
  have "is_double (of_int k * (2::real) powr of_int q)"
    using mq_double [OF kb _ nz lt] bnd by simp
  then show ?thesis using assms by (simp add: round64_Fin q_def k_def)
qed

lemma scaled_dist: "\<bar>of_int j * 2 powr q - x\<bar> = 2 powr q * \<bar>of_int j - x / (2::real) powr q\<bar>"
proof -
  have "of_int j * 2 powr q - x = 2 powr q * (of_int j - x / 2 powr q)"
    by (simp add: algebra_simps)
  then show ?thesis by (simp add: abs_mult)
qed

lemma round64_x0: "round64 0 = Fin 0"
  by (simp add: round64_def T64_def)

lemma round64_nearest:
  assumes x: "\<bar>x\<bar> < T64" and d: "is_double d"
  shows "\<exists>y. round64 x = Fin y \<and> \<bar>y - x\<bar> \<le> \<bar>d - x\<bar>"
proof (cases "x = 0")
  case True
  then show ?thesis by (simp add: round64_x0)
next
  case False
  define q where "q = ulp_exp x"
  define k where "k = round_even (x / 2 powr q)"
  note bnd = ulp_exp_bounds [OF False, folded q_def]
  obtain m' q' where d': "d = of_int m' * 2 powr of_int q'" and m': "\<bar>m'\<bar> < 2 ^ 53"
    and q': "-1074 \<le> q'"
    using double_mq [OF d] by blast
  have near: "\<bar>of_int k * 2 powr q - x\<bar> \<le> \<bar>of_int j * 2 powr q - x\<bar>" for j
    using round_even_nearest [of "x / 2 powr q" j] by (simp add: scaled_dist k_def)
  have "\<exists>j. \<bar>of_int j * 2 powr q - x\<bar> \<le> \<bar>d - x\<bar>"
  proof (cases "q \<le> q'")
    case True
    have "of_int (m' * 2 ^ nat (q' - q)) * 2 powr q = d"
      using True powr2_add_nat [of q "nat (q' - q)"] by (simp add: d')
    then show ?thesis by (intro exI [of _ "m' * 2 ^ nat (q' - q)"]) simp
  next
    case False
    then have "q \<noteq> -1074" using q' by simp
    with bnd have xb: "2 powr (q + 52) \<le> \<bar>x\<bar>" by simp
    have "\<bar>d\<bar> = of_int \<bar>m'\<bar> * 2 powr q'" by (simp add: d' abs_mult)
    also have "\<dots> \<le> 2 ^ 53 * 2 powr q'" using m' by (intro mult_right_mono) simp_all
    also have "\<dots> = 2 powr (q' + 53)" by (simp add: powr2_add_nat [of _ 53, simplified])
    also have "\<dots> \<le> 2 powr (q + 52)" using False by (intro powr2_mono) simp
    finally have db: "\<bar>d\<bar> \<le> 2 powr (q + 52)" .
    define j :: int where "j = (if x < 0 then -1 else 1) * 2 ^ 52"
    have "of_int j * 2 powr q = (if x < 0 then -1 else 1) * 2 powr (q + 52)"
      by (simp add: j_def powr2_add_nat [of _ 52, simplified])
    then have "\<bar>of_int j * 2 powr q - x\<bar> = \<bar>x\<bar> - 2 powr (q + 52)"
      using xb by (auto simp: abs_if)
    also have "\<dots> \<le> \<bar>d - x\<bar>" using db by linarith
    finally show ?thesis by blast
  qed
  then have "\<bar>of_int k * 2 powr q - x\<bar> \<le> \<bar>d - x\<bar>" using near order_trans by blast
  then show ?thesis using x by (simp add: round64_Fin q_def k_def)
qed

lemma double_le_max:
  assumes "is_double y"
  shows "\<bar>y\<bar> \<le> 2 powr 1024 - 2 powr 971"
proof -
  obtain m q where y: "y = of_int m * 2 powr of_int q" and m: "\<bar>m\<bar> < 2 ^ 53" and q: "q \<le> 971"
    using double_mq [OF assms] by blast
  have mi: "\<bar>m\<bar> \<le> 2 ^ 53 - 1" using m by linarith
  have mr: "real_of_int \<bar>m\<bar> \<le> real_of_int (2 ^ 53 - 1)" using mi by (simp only: of_int_le_iff)
  have "\<bar>y\<bar> = of_int \<bar>m\<bar> * 2 powr q" by (simp add: y abs_mult)
  also have "\<dots> \<le> real_of_int (2 ^ 53 - 1) * 2 powr 971"
    using mr q by (intro mult_mono powr2_mono) simp_all
  also have "\<dots> = 2 powr 1024 - 2 powr 971"
    by (simp add: algebra_simps powr2_add_nat [of 971 53, simplified])
  finally show ?thesis .
qed

lemma double_below_T64: "is_double y \<Longrightarrow> \<bar>y\<bar> < T64"
  using double_le_max [of y] by (simp add: T64_def)

lemma round64_exact_double: "is_double y \<Longrightarrow> round64 y = Fin y"
  using round64_nearest [OF double_below_T64, of y y] by auto

lemma round64_error:
  assumes x: "\<bar>x\<bar> < T64"
  shows "\<exists>y. round64 x = Fin y \<and> \<bar>y - x\<bar> \<le> 2 powr ulp_exp x / 2"
proof -
  have "\<bar>of_int (round_even (x / 2 powr ulp_exp x)) * 2 powr ulp_exp x - x\<bar> \<le> 2 powr ulp_exp x / 2"
    using round_even_half [of "x / 2 powr ulp_exp x"] by (simp add: scaled_dist)
  then show ?thesis using x by (simp add: round64_Fin)
qed

lemma round64_rel_error_normal:
  assumes "2 powr -1022 \<le> \<bar>x\<bar>" "\<bar>x\<bar> < T64"
  shows "\<exists>y. round64 x = Fin y \<and> \<bar>y - x\<bar> \<le> \<bar>x\<bar> / 2 ^ 53"
proof -
  have nz: "x \<noteq> 0" using assms(1) by auto
  have "2 powr (ulp_exp x + 52) \<le> \<bar>x\<bar>" using ulp_exp_bounds [OF nz] assms(1) by simp
  then have "2 powr ulp_exp x / 2 \<le> \<bar>x\<bar> / 2 ^ 53"
    by (simp add: powr2_add_nat [of _ 52, simplified] divide_simps)
  then show ?thesis using round64_error [OF assms(2)] by fastforce
qed

lemma double_intro: "e < 2047 \<Longrightarrow> f < 2 ^ 52 \<Longrightarrow> is_double (valof64 s e f)"
  unfolding is_double_def by blast

lemma zero_double [simp]: "is_double 0"
proof -
  have "valof64 False 0 0 = 0" by (simp add: valof64_def)
  then show ?thesis using double_intro [of 0 0 False] by simp
qed

lemma is_double_abs: "is_double y \<Longrightarrow> is_double \<bar>y\<bar>"
proof -
  assume "is_double y"
  then obtain s e f where e: "e < 2047" and f: "f < 2 ^ 52" and y: "y = valof64 s e f"
    unfolding is_double_def by blast
  have "\<bar>valof64 s e f\<bar> = valof64 False e f" by (simp add: valof64_def abs_mult)
  then show ?thesis using double_intro [OF e f, of False] y by simp
qed

text \<open>
  Below the overflow threshold \<open>T64\<close>, \<open>round64\<close> is IEEE 754 round-to-nearest: the
  result is a binary64 value (one of the encodings of \<open>valof64\<close>) and no binary64 value
  is closer to the exact value.
\<close>

lemma round64_nearest_double:
  "\<bar>x\<bar> < T64 \<Longrightarrow>
   \<exists>y. round64 x = Fin y \<and> is_double y \<and> (\<forall>d. is_double d \<longrightarrow> \<bar>y - x\<bar> \<le> \<bar>d - x\<bar>)"
proof -
  assume x: "\<bar>x\<bar> < T64"
  obtain y where y: "round64 x = Fin y" "is_double y" using round64_double [OF x] by blast
  have "\<bar>y - x\<bar> \<le> \<bar>d - x\<bar>" if "is_double d" for d
    using round64_nearest [OF x that] y(1) by auto
  with y show ?thesis by blast
qed

lemma ten_double: "is_double 10"
proof -
  have "valof64 False 1026 (2 ^ 50) = 10" by (simp add: valof64_def)
  then show ?thesis using double_intro [of 1026 "2 ^ 50" False] by simp
qed


end
