(* ===== verification/F64_Display.thy ===== *)
theory F64_Display
  imports Binary64
begin

text \<open>
  Rust's \<^verbatim>\<open>Display\<close> for \<^verbatim>\<open>f64\<close> (\<^verbatim>\<open>{}\<close>, used by every \<^verbatim>\<open>println!\<close> of a
  value in the calculator) prints the shortest decimal that reads back as the same
  binary64 value, choosing the nearest one when there are two, in positional notation
  without an exponent (\<^verbatim>\<open>core::fmt::float\<close>, \<^verbatim>\<open>flt2dec::to_shortest_str\<close>).
  \<open>r64_show\<close> models it: for \<open>n = 1, 2, \<dots>\<close> significant digits it tries the two
  \<open>n\<close>-digit decimals around the value and keeps one that rounds back (\<open>closest_ok\<close>),
  and at 17 digits it takes the nearest. Proved here: a distinct binary64 value differs by
  at least \<open>|y| / 2^53\<close>, 17 digits always round back, and the printed string is read
  by \<^verbatim>\<open>parse::<f64>\<close> as a literal that rounds to the printed value, and
  that no decimal with fewer significant digits rounds to it (rounding is monotone, so
  some shorter decimal rounds back exactly when one of the two tested neighbours does).
\<close>

text \<open>The value \<open>m * 10^e\<close> of a decimal.\<close>

definition dec_val :: "nat \<Rightarrow> int \<Rightarrow> real" where
  "dec_val m e = real m * 10 powr e"

text \<open>
  The digits of \<open>m\<close> with the point placed for the exponent \<open>e\<close>, as
  \<^verbatim>\<open>flt2dec::digits_to_dec_str\<close> writes them: trailing zeros for \<open>e \<ge> 0\<close>, a point
  inside the digits, or \<^verbatim>\<open>0.\<close> and leading zeros.
\<close>

definition dec_string :: "nat \<Rightarrow> int \<Rightarrow> string" where
  "dec_string m e =
     (let s = show_nat m
      in if 0 \<le> e then s @ replicate (nat e) (CHR ''0'')
         else (let k = nat (- e)
               in if k < length s then take (length s - k) s @ CHR ''.'' # drop (length s - k) s
                  else ''0.'' @ replicate (k - length s) (CHR ''0'') @ s))"

text \<open>Removing trailing zeros of the digits (the shortest digits have none).\<close>

function strip_zeros :: "nat \<Rightarrow> int \<Rightarrow> nat \<times> int" where
  "strip_zeros m e = (if m \<noteq> 0 \<and> m mod 10 = 0 then strip_zeros (m div 10) (e + 1) else (m, e))"
  by auto
termination by (relation "measure fst") auto

declare strip_zeros.simps [simp del]

text \<open>The exponent of the last of \<open>n\<close> significant digits of \<open>y > 0\<close>.\<close>

definition dec_exp :: "real \<Rightarrow> nat \<Rightarrow> int" where
  "dec_exp y n = \<lfloor>log 10 y\<rfloor> - int n + 1"

text \<open>
  The \<open>n\<close>-digit decimals just below and just above \<open>y\<close>; those that round back to
  \<open>y\<close>, the nearer one when both do.
\<close>

definition closest_ok :: "real \<Rightarrow> nat \<Rightarrow> (nat \<times> int) option" where
  "closest_ok y n =
     (let e = dec_exp y n; lo = nat \<lfloor>y / 10 powr e\<rfloor>;
          okl = (round64 (dec_val lo e) = Fin y); okh = (round64 (dec_val (lo + 1) e) = Fin y)
      in if okl \<and> okh then Some (if y - dec_val lo e \<le> dec_val (lo + 1) e - y then (lo, e) else (lo + 1, e))
         else if okl then Some (lo, e) else if okh then Some (lo + 1, e) else None)"

text \<open>The \<open>n\<close>-digit decimal nearest to \<open>y\<close>.\<close>

definition nearest_dec :: "real \<Rightarrow> nat \<Rightarrow> nat \<times> int" where
  "nearest_dec y n =
     (let e = dec_exp y n; lo = nat \<lfloor>y / 10 powr e\<rfloor>
      in if y - dec_val lo e \<le> dec_val (lo + 1) e - y then (lo, e) else (lo + 1, e))"

text \<open>The search for the fewest digits that round back, from \<open>n\<close> digits, \<open>k\<close> more tries.\<close>

fun shortest_from :: "real \<Rightarrow> nat \<Rightarrow> nat \<Rightarrow> nat \<times> int" where
  "shortest_from y n 0 = nearest_dec y n"
| "shortest_from y n (Suc k) = (case closest_ok y n of Some c \<Rightarrow> c | None \<Rightarrow> shortest_from y (Suc n) k)"

text \<open>\<^verbatim>\<open>Display\<close> of an \<^verbatim>\<open>f64\<close>: sign, the shortest digits, \<^verbatim>\<open>inf\<close> and \<^verbatim>\<open>NaN\<close>.\<close>

definition r64_show :: "xf \<Rightarrow> string" where
  "r64_show v =
     (case v of
        Fin y \<Rightarrow>
          if y = 0 then ''0''
          else (if y < 0 then ''-'' else []) @
               (case shortest_from \<bar>y\<bar> 1 16 of
                  (m, e) \<Rightarrow> (case strip_zeros m e of (m', e') \<Rightarrow> dec_string m' e'))
      | PInf \<Rightarrow> ''inf''
      | NInf \<Rightarrow> ''-inf''
      | NaN \<Rightarrow> ''NaN'')"

lemma int_gap:
  fixes Y Z N :: int
  assumes lt: "\<bar>Z - Y\<bar> * N < \<bar>Y\<bar>" and N: "1 < N" and small: "\<bar>Y\<bar> < N \<or> \<bar>Z\<bar> < N"
  shows "Z = Y"
proof (rule ccontr)
  assume ne: "Z \<noteq> Y"
  then have one: "1 \<le> \<bar>Z - Y\<bar>" by simp
  show False
  proof (cases "\<bar>Y\<bar> < N")
    case True
    have "N \<le> \<bar>Z - Y\<bar> * N" using one N by simp
    with lt True show False by simp
  next
    case False
    with small have z: "\<bar>Z\<bar> \<le> N - 1" by simp
    have "\<bar>Y\<bar> - N + 1 \<le> \<bar>Z - Y\<bar>" using z by linarith
    then have "(\<bar>Y\<bar> - N + 1) * N \<le> \<bar>Z - Y\<bar> * N" using N by (simp add: mult_right_mono)
    moreover have "\<bar>Y\<bar> \<le> (\<bar>Y\<bar> - N + 1) * N"
    proof -
      have "0 \<le> (\<bar>Y\<bar> - N) * (N - 1)" using False N by simp
      then show ?thesis by (simp add: algebra_simps)
    qed
    ultimately show False using lt by simp
  qed
qed

lemma powr2_shift:
  fixes m q q0 :: int
  assumes "q0 \<le> q"
  shows "of_int m * (2::real) powr q = of_int (m * 2 ^ nat (q - q0)) * 2 powr q0"
proof -
  have "(2::real) powr q = 2 powr (real (nat (q - q0))) * 2 powr q0"
    using assms by (simp add: powr_add [symmetric])
  then show ?thesis by (simp add: powr_realpow)
qed

lemma double_gap:
  assumes z: "is_double z" and y: "is_double y" and lt: "\<bar>z - y\<bar> < \<bar>y\<bar> / 2 ^ 53"
  shows "z = y"
proof -
  obtain my qy where y': "y = of_int my * 2 powr of_int qy" "\<bar>my\<bar> < 2 ^ 53"
    using double_mq [OF y] by blast
  obtain mz qz where z': "z = of_int mz * 2 powr of_int qz" "\<bar>mz\<bar> < 2 ^ 53"
    using double_mq [OF z] by blast
  define q0 where "q0 = min qy qz"
  define Y where "Y = my * 2 ^ nat (qy - q0)"
  define Z where "Z = mz * 2 ^ nat (qz - q0)"
  have yY: "y = of_int Y * 2 powr q0" using y'(1) powr2_shift [of q0 qy my] by (simp add: Y_def q0_def)
  have zZ: "z = of_int Z * 2 powr q0" using z'(1) powr2_shift [of q0 qz mz] by (simp add: Z_def q0_def)
  have small: "\<bar>Y\<bar> < 2 ^ 53 \<or> \<bar>Z\<bar> < 2 ^ 53"
    using y'(2) z'(2) by (auto simp: Y_def Z_def q0_def min_def)
  have "\<bar>of_int Z - of_int Y\<bar> * 2 powr q0 < \<bar>of_int Y\<bar> * 2 powr q0 / (2::real) ^ 53"
    using lt by (simp add: yY zZ abs_mult left_diff_distrib [symmetric])
  then have "\<bar>of_int Z - of_int Y\<bar> * 2 ^ 53 < (\<bar>of_int Y\<bar> :: real)"
    by (simp add: field_simps)
  then have "real_of_int (\<bar>Z - Y\<bar> * 2 ^ 53) < real_of_int \<bar>Y\<bar>" by simp
  then have "\<bar>Z - Y\<bar> * 2 ^ 53 < \<bar>Y\<bar>" by (simp only: of_int_less_iff)
  then have "Z = Y" using int_gap [OF _ _ small] by simp
  then show ?thesis by (simp add: yY zZ)
qed

lemma digit_value_0 [simp]: "digit_value (CHR ''0'') = 0"
  by (simp add: digit_value_def)

lemma is_digit_0 [simp]: "is_digit (CHR ''0'')"
  by (simp add: is_digit_def)

lemma digits_value_zeros: "digits_value (xs @ replicate k (CHR ''0'')) = digits_value xs * 10 ^ k"
proof (induction k)
  case (Suc k)
  have "xs @ replicate (Suc k) (CHR ''0'') = (xs @ replicate k (CHR ''0'')) @ [CHR ''0'']"
    by (metis append_assoc replicate_Suc replicate_append_same)
  then show ?case using Suc by (simp only: digits_value_snoc digit_value_0) simp
qed simp

lemma digits_value_lead_zeros: "digits_value (replicate k (CHR ''0'') @ xs) = digits_value xs"
proof -
  have "foldl (\<lambda>acc d. 10 * acc + digit_value d) 0 (replicate k (CHR ''0'')) = 0"
    by (induction k) simp_all
  then show ?thesis by (simp add: digits_value_def)
qed

lemma parse_number_digits:
  "list_all is_digit ds \<Longrightarrow> ds \<noteq> [] \<Longrightarrow> parse_number ds = Some (digits_value ds, 0)"
  by (simp add: parse_number_def all_digits_while Let_def)

lemma parse_number_point_only:
  assumes "list_all is_digit ds" "list_all is_digit fs" "ds @ fs \<noteq> []"
  shows "parse_number (ds @ CHR ''.'' # fs) = Some (digits_value (ds @ fs), - int (length fs))"
proof -
  have "takeWhile is_digit (ds @ CHR ''.'' # fs) = ds" "dropWhile is_digit (ds @ CHR ''.'' # fs) = CHR ''.'' # fs"
    using assms(1) by (simp_all add: takeWhile_digits_append dropWhile_digits_append list_all_iff)
  with assms show ?thesis by (simp add: parse_number_def all_digits_while Let_def)
qed

lemma show_nat_all_digits: "list_all is_digit (show_nat m)" "show_nat m \<noteq> []"
  using show_nat_digits [of m] by (simp_all add: list_all_iff)

lemma dec_val_pow: "dec_val m e = real m * (if 0 \<le> e then 10 ^ nat e else 1 / 10 ^ nat (- e))"
  by (simp add: dec_val_def powr_realpow [symmetric] powr_minus_divide [symmetric] del: powr_realpow)

lemma parse_dec_string:
  "\<exists>m' e'. parse_number (dec_string m e) = Some (m', e') \<and> dec_val m' e' = dec_val m e"
proof -
  define s where "s = show_nat m"
  have ds: "list_all is_digit s" "s \<noteq> []" using show_nat_all_digits by (simp_all add: s_def)
  have vs: "digits_value s = m" by (simp add: s_def)
  consider (pos) "0 \<le> e" | (mid) "e < 0" "nat (- e) < length s" | (low) "e < 0" "\<not> nat (- e) < length s"
    by linarith
  then show ?thesis
  proof cases
    case pos
    have d: "list_all is_digit (s @ replicate (nat e) (CHR ''0''))" using ds(1) by (auto simp: list_all_iff)
    have "parse_number (dec_string m e) = parse_number (s @ replicate (nat e) (CHR ''0''))"
      using pos by (simp add: dec_string_def s_def Let_def)
    also have "\<dots> = Some (m * 10 ^ nat e, 0)"
      using parse_number_digits [OF d] ds(2) by (simp add: digits_value_zeros vs)
    finally have "parse_number (dec_string m e) = Some (m * 10 ^ nat e, 0)" .
    moreover have "dec_val (m * 10 ^ nat e) 0 = dec_val m e" using pos by (simp add: dec_val_pow)
    ultimately show ?thesis by blast
  next
    case mid
    define k where "k = nat (- e)"
    have d: "list_all is_digit (take (length s - k) s)" "list_all is_digit (drop (length s - k) s)"
      using ds(1) by (auto simp: list_all_iff dest: in_set_takeD in_set_dropD)
    have ne: "take (length s - k) s @ drop (length s - k) s \<noteq> []" using ds(2) by simp
    have "parse_number (dec_string m e) = Some (m, e)"
      using mid parse_number_point_only [OF d ne]
      by (simp add: dec_string_def s_def [symmetric] k_def [symmetric] vs Let_def) (simp add: k_def)
    then show ?thesis by blast
  next
    case low
    define k where "k = nat (- e)"
    have d: "list_all is_digit ''0''" "list_all is_digit (replicate (k - length s) (CHR ''0'') @ s)"
      using ds(1) by (auto simp: list_all_iff)
    have "parse_number (dec_string m e) = Some (m, e)"
      using low parse_number_point_only [OF d] ds(2)
      by (simp add: dec_string_def s_def [symmetric] k_def [symmetric] vs Let_def
          digits_value_lead_zeros [of "Suc (k - length s)", simplified]) (simp add: k_def)
    then show ?thesis by blast
  qed
qed

lemma strip_zeros_val: "strip_zeros m e = (m', e') \<Longrightarrow> dec_val m' e' = dec_val m e"
proof (induction m e rule: strip_zeros.induct)
  case (1 m e)
  show ?case
  proof (cases "m \<noteq> 0 \<and> m mod 10 = 0")
    case True
    then have m: "m = 10 * (m div 10)" by (metis add.right_neutral div_mult_mod_eq mult.commute)
    have "dec_val (m div 10) (e + 1) = dec_val m e"
      by (subst (2) m) (simp add: dec_val_def powr_add)
    with True "1" show ?thesis by (simp add: strip_zeros.simps [of m e])
  next
    case False
    have "strip_zeros m e = (m, e)" by (simp only: strip_zeros.simps [of m e] if_not_P [OF False])
    with "1.prems" show ?thesis by simp
  qed
qed

lemma round_even_neg: "round_even (- m) = - round_even m"
proof (cases "m = of_int \<lfloor>m\<rfloor>")
  case True
  then have "- m = of_int (- \<lfloor>m\<rfloor>)" by simp
  then show ?thesis by (metis True round_even_int)
next
  case False
  define f where "f = \<lfloor>m\<rfloor>"
  have lt: "of_int f < m" "m < of_int f + 1" using False by (auto simp: f_def) linarith+
  have fl: "\<lfloor>- m\<rfloor> = - f - 1" using lt by (intro floor_unique) simp_all
  show ?thesis
    unfolding round_even_def Let_def fl f_def [symmetric] using lt by auto
qed

lemma round64_neg: "round64 (- x) = xf_neg (round64 x)"
proof -
  have u: "ulp_exp (- x) = ulp_exp x" by (simp add: ulp_exp_def)
  have "- x / 2 powr ulp_exp x = - (x / 2 powr ulp_exp x)" by simp
  moreover have "0 < T64" by (simp add: T64_def)
  ultimately show ?thesis
    unfolding round64_def u by (auto simp: round_even_neg)
qed

lemma nearest_dec_err:
  assumes "0 < y"
  shows "\<bar>case_prod dec_val (nearest_dec y n) - y\<bar> \<le> 10 powr dec_exp y n / 2"
proof -
  define p where "p = (10::real) powr dec_exp y n"
  define t where "t = y / p"
  have p0: "0 < p" by (simp add: p_def)
  have t0: "0 \<le> t" using assms p0 by (simp add: t_def)
  define u where "u = of_int \<lfloor>t\<rfloor> * p"
  have lo: "dec_val (nat \<lfloor>y / 10 powr dec_exp y n\<rfloor>) (dec_exp y n) = u"
    using t0 by (simp add: dec_val_def u_def p_def t_def)
  have hi: "dec_val (nat \<lfloor>y / 10 powr dec_exp y n\<rfloor> + 1) (dec_exp y n) = u + p"
    using t0 by (simp add: dec_val_def u_def p_def t_def distrib_right)
  have "of_int \<lfloor>t\<rfloor> * p \<le> t * p" using p0 by (intro mult_right_mono) simp_all
  moreover have "t * p < (of_int \<lfloor>t\<rfloor> + 1) * p" using p0 by (intro mult_strict_right_mono) simp_all
  moreover have "t * p = y" using p0 by (simp add: t_def)
  ultimately have b: "u \<le> y" "y < u + p" by (simp_all add: u_def distrib_right)
  have "case_prod dec_val (nearest_dec y n) = (if y - u \<le> u + p - y then u else u + p)"
    unfolding nearest_dec_def Let_def by (simp only: lo hi prod.case split: if_split) simp
  then show ?thesis using b by (simp add: p_def [symmetric])
qed

lemma dec_exp_bound:
  assumes "0 < y"
  shows "10 powr dec_exp y n \<le> y * 10 powr (1 - int n)"
proof -
  have "10 powr \<lfloor>log 10 y\<rfloor> \<le> y"
    using floor_log_eq_powr_iff [of y 10 "\<lfloor>log 10 y\<rfloor>"] assms by simp
  then have "10 powr \<lfloor>log 10 y\<rfloor> * 10 powr (1 - int n) \<le> y * 10 powr (1 - int n)"
    by (intro mult_right_mono) simp_all
  then show ?thesis by (simp add: dec_exp_def powr_add [symmetric] algebra_simps)
qed

lemma nearest_dec_roundtrip:
  assumes y: "is_double y" "0 < y" and n: "17 \<le> n"
  shows "round64 (case_prod dec_val (nearest_dec y n)) = Fin y"
proof -
  define d where "d = case_prod dec_val (nearest_dec y n)"
  define r :: real where "r = 10 powr -16"
  have "(10::real) powr (1 - int n) \<le> r" using n unfolding r_def by (intro powr_mono) simp_all
  then have "10 powr dec_exp y n \<le> y * r"
    using dec_exp_bound [OF y(2), of n] y(2) by (meson mult_left_mono order.trans less_imp_le)
  then have err: "\<bar>d - y\<bar> \<le> y * r / 2" using nearest_dec_err [OF y(2), of n] by (simp add: d_def)
  have r: "r = 1 / 10 ^ 16" by (simp add: r_def powr_minus_divide powr_realpow)
  have small: "y * r < y / 2 ^ 53" using y(2) by (simp add: r divide_strict_left_mono)
  have "y \<le> 2 powr 1024 - 2 powr 971" using double_le_max [OF y(1)] y(2) by simp
  then have "y * (1 + r / 2) \<le> (2 powr 1024 - 2 powr 971) * (1 + r / 2)"
    by (rule mult_right_mono) (simp add: r)
  also have "\<dots> < T64" by (simp add: T64_def r)
  finally have lt: "y * (1 + r / 2) < T64" .
  have ry: "0 \<le> r * y" "r * y \<le> y" "0 < T64" using y(2) by (simp_all add: r T64_def)
  have "\<bar>d\<bar> < T64"
    using lt ry err unfolding abs_le_iff abs_less_iff by (simp add: algebra_simps)
  then obtain z where z: "round64 d = Fin z" "is_double z" "\<forall>d'. is_double d' \<longrightarrow> \<bar>z - d\<bar> \<le> \<bar>d' - d\<bar>"
    using round64_nearest_double by blast
  have "\<bar>z - d\<bar> \<le> \<bar>y - d\<bar>" using z(3) y(1) by blast
  moreover have "\<bar>z - y\<bar> \<le> \<bar>z - d\<bar> + \<bar>d - y\<bar>" using abs_triangle_ineq [of "z - d" "d - y"] by simp
  moreover have "\<bar>y - d\<bar> = \<bar>d - y\<bar>" by (rule abs_minus_commute)
  ultimately have "\<bar>z - y\<bar> \<le> y * r" using err by linarith
  moreover have "\<bar>y\<bar> = y" using y(2) by simp
  ultimately have "\<bar>z - y\<bar> < \<bar>y\<bar> / 2 ^ 53" using small by linarith
  then have "z = y" by (rule double_gap [OF z(2) y(1)])
  then show ?thesis using z(1) by (simp add: d_def)
qed

lemma closest_ok_sound: "closest_ok y n = Some c \<Longrightarrow> round64 (case_prod dec_val c) = Fin y"
  by (auto simp: closest_ok_def Let_def split: if_splits)

lemma shortest_from_roundtrip:
  "is_double y \<Longrightarrow> 0 < y \<Longrightarrow> 17 \<le> n + k \<Longrightarrow> round64 (case_prod dec_val (shortest_from y n k)) = Fin y"
proof (induction k arbitrary: n)
  case 0
  then show ?case by (simp add: nearest_dec_roundtrip)
next
  case (Suc k)
  then show ?case by (auto simp: closest_ok_sound split: option.split)
qed

lemma dec_string_digit_head: "\<exists>c r. dec_string m e = c # r \<and> is_digit c"
proof -
  obtain c r where s: "show_nat m = c # r" using show_nat_all_digits(2) [of m] by (cases "show_nat m") auto
  have c: "is_digit c" using s by (rule show_nat_Cons_digit)
  show ?thesis using c by (auto simp: dec_string_def s Let_def Suc_diff_le)
qed

lemma r64_show_parse:
  assumes "is_double y"
  shows "\<exists>neg m e. dec2flt (r64_show (Fin y)) = Some (Finite_Lit neg m e) \<and>
                   round64 ((if neg then -1 else 1) * dec_val m e) = Fin y"
proof (cases "y = 0")
  case True
  have "dec2flt ''0'' = Some (Finite_Lit False 0 0)"
    by (simp add: dec2flt_def parse_number_def is_digit_def digits_value_def digit_value_def)
  then show ?thesis using True by (auto simp: r64_show_def dec_val_def round64_x0)
next
  case False
  define a where "a = \<bar>y\<bar>"
  have a: "is_double a" "0 < a" using assms False by (simp_all add: a_def is_double_abs)
  obtain m0 e0 where sf: "shortest_from a 1 16 = (m0, e0)" by (cases "shortest_from a 1 16")
  obtain m e where sz: "strip_zeros m0 e0 = (m, e)" by (cases "strip_zeros m0 e0")
  have rt: "round64 (dec_val m e) = Fin a"
    using shortest_from_roundtrip [OF a, of 1 16] sf strip_zeros_val [OF sz] by simp
  obtain m' e' where p: "parse_number (dec_string m e) = Some (m', e')" "dec_val m' e' = dec_val m e"
    using parse_dec_string by blast
  obtain c r where h: "dec_string m e = c # r" "is_digit c" using dec_string_digit_head by blast
  have s: "r64_show (Fin y) = (if y < 0 then ''-'' else []) @ dec_string m e"
    unfolding r64_show_def xf.case a_def [symmetric] sf prod.case sz using False by simp
  show ?thesis
  proof (cases "y < 0")
    case True
    have "dec2flt (r64_show (Fin y)) = Some (Finite_Lit True m' e')"
      using True p(1) h(1) by (simp add: s dec2flt_def)
    moreover have "round64 (-1 * dec_val m' e') = Fin y"
      using True rt p(2) by (simp add: round64_neg a_def)
    ultimately show ?thesis by fastforce
  next
    case False
    have "\<not> (\<exists>r. dec_string m e = CHR ''-'' # r \<or> dec_string m e = CHR ''+'' # r)"
      using h by auto
    then have "dec2flt (r64_show (Fin y)) = Some (Finite_Lit False m' e')"
      using False p(1) by (simp add: s dec2flt_unsigned)
    moreover have "round64 (dec_val m' e') = Fin y" using False rt p(2) by (simp add: a_def)
    ultimately show ?thesis by fastforce
  qed
qed

lemma round64_Fin_below: "round64 x = Fin y \<Longrightarrow> \<bar>x\<bar> < T64"
  by (auto simp: round64_def abs_less_iff split: if_splits)

lemma round64_mono:
  assumes ab: "a \<le> b" and ra: "round64 a = Fin ya" and rb: "round64 b = Fin yb"
  shows "ya \<le> yb"
proof (rule ccontr)
  assume lt: "\<not> ya \<le> yb"
  have ta: "\<bar>a\<bar> < T64" and tb: "\<bar>b\<bar> < T64" using ra rb by (auto intro: round64_Fin_below)
  have da: "is_double ya" and db: "is_double yb"
    using round64_double [OF ta] round64_double [OF tb] ra rb by auto
  have "\<bar>ya - a\<bar> \<le> \<bar>yb - a\<bar>" using round64_nearest [OF ta db] ra by auto
  moreover have "\<bar>yb - b\<bar> \<le> \<bar>ya - b\<bar>" using round64_nearest [OF tb da] rb by auto
  moreover have "a \<noteq> b" using ra rb lt by auto
  ultimately show False using lt ab by (auto simp: abs_if split: if_splits)
qed

lemma round64_between:
  assumes "a \<le> x" "x \<le> b" "round64 a = Fin y" "round64 b = Fin y"
  shows "round64 x = Fin y"
proof -
  have "\<bar>a\<bar> < T64" "\<bar>b\<bar> < T64" using assms(3,4) by (auto intro: round64_Fin_below)
  then have "\<bar>x\<bar> < T64" using assms(1,2) by (simp add: abs_less_iff)
  then obtain z where z: "round64 x = Fin z" using round64_double by blast
  have "y \<le> z" using round64_mono [OF assms(1) assms(3) z] .
  moreover have "z \<le> y" using round64_mono [OF assms(2) z assms(4)] .
  ultimately show ?thesis using z by simp
qed

lemma show_nat_length_le: "m < 10 ^ j \<Longrightarrow> 1 \<le> j \<Longrightarrow> length (show_nat m) \<le> j"
proof (induction m arbitrary: j rule: show_nat.induct)
  case (1 m)
  show ?case
  proof (cases "m < 10")
    case False
    obtain i where j: "j = Suc i" using "1.prems"(2) by (cases j) auto
    have "m div 10 < 10 ^ i" using "1.prems"(1) j by (simp add: less_mult_imp_div_less mult.commute)
    moreover have "1 \<le> i" using False "1.prems"(1) j by (cases i) auto
    ultimately have "length (show_nat (m div 10)) \<le> i" using "1.IH" False by blast
    then show ?thesis using False j by (simp add: show_nat.simps [of m])
  qed (use "1.prems" in \<open>simp add: show_nat.simps [of m]\<close>)
qed

lemma show_nat_length_less: "length (show_nat m) \<le> j \<Longrightarrow> m < 10 ^ j"
proof (induction m arbitrary: j rule: show_nat.induct)
  case (1 m)
  show ?case
  proof (cases "m < 10")
    case True
    then have "1 \<le> j" using "1.prems" by (simp add: show_nat.simps [of m])
    then have "(10::nat) ^ 1 \<le> 10 ^ j" by (intro power_increasing) simp_all
    then show ?thesis using True by simp
  next
    case False
    obtain i where j: "j = Suc i" using "1.prems" False by (cases j) (auto simp: show_nat.simps [of m])
    have "length (show_nat (m div 10)) \<le> i" using "1.prems" False j by (simp add: show_nat.simps [of m])
    then have "m div 10 < 10 ^ i" using "1.IH" False by blast
    then show ?thesis using j by simp
  qed
qed

lemma strip_zeros_length: "length (show_nat (fst (strip_zeros m e))) \<le> length (show_nat m)"
proof (induction m e rule: strip_zeros.induct)
  case (1 m e)
  show ?case
  proof (cases "m \<noteq> 0 \<and> m mod 10 = 0")
    case True
    then have "\<not> m < 10" by auto
    then have "length (show_nat (m div 10)) \<le> length (show_nat m)" by (simp add: show_nat.simps [of m])
    with True "1.IH" show ?thesis by (simp add: strip_zeros.simps [of m e])
  next
    case False
    show ?thesis by (simp only: strip_zeros.simps [of m e] if_not_P [OF False]) simp
  qed
qed

lemma strip_zeros_pow10: "strip_zeros (10 ^ j) e = (1, e + int j)"
proof (induction j arbitrary: e)
  case 0
  show ?case by (subst strip_zeros.simps) simp
next
  case (Suc j)
  have "strip_zeros (10 ^ Suc j) e = strip_zeros (10 ^ j) (e + 1)" by (subst strip_zeros.simps) simp
  then show ?case using Suc [of "e + 1"] by (simp add: algebra_simps)
qed

lemma digits_le_pow10:
  "m \<le> 10 ^ j \<Longrightarrow> 1 \<le> j \<Longrightarrow> length (show_nat (fst (strip_zeros m e))) \<le> j"
proof (cases "m = 10 ^ j")
  case True
  assume "1 \<le> j"
  then show ?thesis using True by (simp add: strip_zeros_pow10 show_nat.simps [of "Suc 0"])
next
  case False
  assume "m \<le> 10 ^ j" "1 \<le> j"
  with False have "length (show_nat m) \<le> j" by (simp add: show_nat_length_le)
  then show ?thesis using strip_zeros_length [of m e] by simp
qed

lemma dec_grid:
  assumes y: "0 < y" and n: "1 \<le> n"
  defines "g \<equiv> (10::real) powr dec_exp y n"
  shows "10 powr \<lfloor>log 10 y\<rfloor> \<le> of_int \<lfloor>y / g\<rfloor> * g" "y / g < 10 ^ n"
proof -
  have b: "10 powr \<lfloor>log 10 y\<rfloor> \<le> y" "y < 10 powr (\<lfloor>log 10 y\<rfloor> + 1)"
    using floor_log_eq_powr_iff [of y 10 "\<lfloor>log 10 y\<rfloor>"] y by simp_all
  have g0: "0 < g" by (simp add: g_def)
  have gk: "10 powr \<lfloor>log 10 y\<rfloor> = 10 ^ (n - 1) * g"
    using n by (simp add: g_def dec_exp_def powr_realpow [symmetric] powr_add [symmetric] of_nat_diff)
  have "(10::real) ^ (n - 1) \<le> y / g" using b(1) g0 by (simp add: gk pos_le_divide_eq)
  then have "(10::int) ^ (n - 1) \<le> \<lfloor>y / g\<rfloor>" by (simp add: le_floor_iff)
  then have "real_of_int (10 ^ (n - 1)) \<le> of_int \<lfloor>y / g\<rfloor>" by (simp only: of_int_le_iff)
  then have "real (10 ^ (n - 1)) \<le> of_int \<lfloor>y / g\<rfloor>" by simp
  then show "10 powr \<lfloor>log 10 y\<rfloor> \<le> of_int \<lfloor>y / g\<rfloor> * g" using g0 by (simp add: gk mult_right_mono)
  have "10 powr (\<lfloor>log 10 y\<rfloor> + 1) = 10 ^ n * g"
    using n by (simp add: g_def dec_exp_def powr_realpow [symmetric] powr_add [symmetric])
  then show "y / g < 10 ^ n" using b(2) g0 by (simp add: divide_less_eq)
qed

lemma show_nat_length_ge1: "1 \<le> length (show_nat m)"
  using show_nat_all_digits(2) [of m] by (cases "show_nat m") simp_all

lemma lo_digits:
  assumes "0 < y" "1 \<le> n"
  shows "Suc (nat \<lfloor>y / 10 powr dec_exp y n\<rfloor>) \<le> 10 ^ n"
proof -
  have "y / 10 powr dec_exp y n < 10 ^ n" using dec_grid(2) [OF assms] .
  then have "\<lfloor>y / 10 powr dec_exp y n\<rfloor> < 10 ^ n" by (simp add: floor_less_iff)
  then have "nat \<lfloor>y / 10 powr dec_exp y n\<rfloor> < 10 ^ n"
    by (cases "0 \<le> \<lfloor>y / 10 powr dec_exp y n\<rfloor>") (simp_all add: nat_less_iff)
  then show ?thesis by (rule Suc_leI)
qed

lemma closest_ok_digits:
  assumes "0 < y" "1 \<le> n" "closest_ok y n = Some c"
  shows "fst c \<le> 10 ^ n"
proof -
  obtain L where L: "nat \<lfloor>y / 10 powr dec_exp y n\<rfloor> = L" "Suc L \<le> 10 ^ n"
    using lo_digits [OF assms(1,2)] by blast
  show ?thesis using assms(3) L(2) unfolding closest_ok_def Let_def L(1) by (auto split: if_splits)
qed

lemma nearest_dec_digits:
  assumes "0 < y" "1 \<le> n"
  shows "fst (nearest_dec y n) \<le> 10 ^ n"
proof -
  obtain L where L: "nat \<lfloor>y / 10 powr dec_exp y n\<rfloor> = L" "Suc L \<le> 10 ^ n"
    using lo_digits [OF assms] by blast
  show ?thesis using L(2) unfolding nearest_dec_def Let_def L(1) by auto
qed

lemma shortest_from_first:
  "0 < y \<Longrightarrow> 1 \<le> n \<Longrightarrow>
   \<exists>j. n \<le> j \<and> (\<forall>i. n \<le> i \<longrightarrow> i < j \<longrightarrow> closest_ok y i = None) \<and>
       length (show_nat (fst (case_prod strip_zeros (shortest_from y n k)))) \<le> j"
proof (induction k arbitrary: n)
  case 0
  have "length (show_nat (fst (case_prod strip_zeros (nearest_dec y n)))) \<le> n"
    using nearest_dec_digits [OF 0] digits_le_pow10 [of _ n] "0.prems"(2)
    by (cases "nearest_dec y n") simp
  then show ?case by auto
next
  case (Suc k)
  show ?case
  proof (cases "closest_ok y n")
    case None
    obtain j where j: "Suc n \<le> j" "\<forall>i. Suc n \<le> i \<longrightarrow> i < j \<longrightarrow> closest_ok y i = None"
      "length (show_nat (fst (case_prod strip_zeros (shortest_from y (Suc n) k)))) \<le> j"
      using Suc.IH [of "Suc n"] Suc.prems by auto
    have "\<forall>i. n \<le> i \<longrightarrow> i < j \<longrightarrow> closest_ok y i = None"
      using j(2) None by (metis le_antisym not_less_eq_eq)
    then show ?thesis using j(1,3) None by (intro exI [of _ j]) simp
  next
    case (Some c)
    have "length (show_nat (fst (case_prod strip_zeros c))) \<le> n"
      using closest_ok_digits [OF Suc.prems Some] digits_le_pow10 [of _ n] Suc.prems(2)
      by (cases c) simp
    then show ?thesis using Some by (intro exI [of _ n]) simp
  qed
qed

lemma powr10_shift:
  fixes q q0 :: int
  assumes "q0 \<le> q"
  shows "real M * 10 powr q = real (M * 10 ^ nat (q - q0)) * 10 powr q0"
proof -
  have "(10::real) powr q = 10 powr (real (nat (q - q0))) * 10 powr q0"
    using assms by (simp add: powr_add [symmetric])
  then show ?thesis by (simp add: powr_realpow)
qed

lemma closest_ok_not_None:
  "round64 (dec_val (nat \<lfloor>y / 10 powr dec_exp y n\<rfloor>) (dec_exp y n)) = Fin y \<or>
   round64 (dec_val (nat \<lfloor>y / 10 powr dec_exp y n\<rfloor> + 1) (dec_exp y n)) = Fin y \<Longrightarrow>
   closest_ok y n \<noteq> None"
  by (auto simp: closest_ok_def Let_def)

lemma shorter_neighbour:
  assumes y: "is_double y" "0 < y" and n: "1 \<le> n" and M: "M < 10 ^ n"
    and c: "round64 (dec_val M E) = Fin y"
  shows "closest_ok y n \<noteq> None"
proof -
  define e where "e = dec_exp y n"
  define g :: real where "g = 10 powr e"
  define F where "F = \<lfloor>y / g\<rfloor>"
  have g0: "0 < g" by (simp add: g_def)
  have F0: "0 \<le> F" using y(2) g0 by (simp add: F_def)
  have lo: "dec_val (nat F) e = of_int F * g" using F0 by (simp add: dec_val_def g_def)
  have hi: "dec_val (nat F + 1) e = (of_int F + 1) * g" using F0 by (simp add: dec_val_def g_def)
  have "of_int F * g \<le> y / g * g" using g0 by (intro mult_right_mono) (simp_all add: F_def)
  then have b1: "of_int F * g \<le> y" using g0 by simp
  have "y / g * g < (of_int F + 1) * g" using g0 by (intro mult_strict_right_mono) (simp_all add: F_def)
  then have b2: "y < (of_int F + 1) * g" using g0 by simp
  have k: "10 powr \<lfloor>log 10 y\<rfloor> \<le> of_int F * g" using dec_grid(1) [OF y(2) n] by (simp add: F_def g_def e_def)
  have ry: "round64 y = Fin y" using round64_exact_double [OF y(1)] .
  have ok: "round64 (dec_val (nat F) e) = Fin y \<or> round64 (dec_val (nat F + 1) e) = Fin y"
  proof (cases "dec_val M E \<le> of_int F * g")
    case True
    then show ?thesis using round64_between [OF True b1 c ry] lo by simp
  next
    case nlo: False
    show ?thesis
    proof (cases "(of_int F + 1) * g \<le> dec_val M E")
      case True
      then show ?thesis using round64_between [OF less_imp_le [OF b2] True ry c] hi by simp
    next
      case nhi: False
      have "(10::real) powr \<lfloor>log 10 y\<rfloor> < real M * 10 powr E" using nlo k by (simp add: dec_val_def)
      also have "\<dots> < 10 ^ n * 10 powr E" using M by (intro mult_strict_right_mono) (simp_all flip: of_nat_power)
      also have "\<dots> = 10 powr (n + E)" by (simp add: powr_add powr_realpow)
      finally have "\<lfloor>log 10 y\<rfloor> < n + E" by simp
      then have Ee: "e \<le> E" by (simp add: e_def dec_exp_def)
      define N where "N = M * 10 ^ nat (E - e)"
      have cN: "dec_val M E = real N * g" using powr10_shift [OF Ee, of M] by (simp add: dec_val_def N_def g_def)
      have "of_int F * g < real N * g" "real N * g < (of_int F + 1) * g" using nlo nhi cN by simp_all
      then have "of_int F < real_of_int (int N)" "real_of_int (int N) < of_int (F + 1)" using g0 by simp_all
      then have "F < int N" "int N < F + 1" by (simp_all only: of_int_less_iff)
      then show ?thesis by simp
    qed
  qed
  show ?thesis using closest_ok_not_None ok by (simp add: e_def g_def F_def)
qed

lemma r64_show_shortest:
  assumes y: "is_double y" "0 < y"
  shows "\<exists>m e. r64_show (Fin y) = dec_string m e \<and> round64 (dec_val m e) = Fin y \<and>
              (\<forall>M E. round64 (dec_val M E) = Fin y \<longrightarrow> length (show_nat m) \<le> length (show_nat M))"
proof -
  obtain m0 e0 where sf: "shortest_from y 1 16 = (m0, e0)" by (cases "shortest_from y 1 16")
  obtain m e where sz: "strip_zeros m0 e0 = (m, e)" by (cases "strip_zeros m0 e0")
  have s: "r64_show (Fin y) = dec_string m e"
    unfolding r64_show_def xf.case using y(2) sf sz by simp
  have rt: "round64 (dec_val m e) = Fin y"
    using shortest_from_roundtrip [OF y, of 1 16] sf strip_zeros_val [OF sz] by simp
  obtain j where j: "1 \<le> j" "\<forall>i. 1 \<le> i \<longrightarrow> i < j \<longrightarrow> closest_ok y i = None"
    "length (show_nat (fst (case_prod strip_zeros (shortest_from y 1 16)))) \<le> j"
    using shortest_from_first [OF y(2), of 1 16] by auto
  have mj: "length (show_nat m) \<le> j" using j(3) sf sz by simp
  have "length (show_nat m) \<le> length (show_nat M)" if r: "round64 (dec_val M E) = Fin y" for M E
  proof -
    define n' where "n' = length (show_nat M)"
    have n1: "1 \<le> n'" using show_nat_length_ge1 by (simp add: n'_def)
    have "M < 10 ^ n'" using show_nat_length_less [of M n'] by (simp add: n'_def)
    then have "closest_ok y n' \<noteq> None" using shorter_neighbour [OF y n1 _ r] by blast
    then have "j \<le> n'" using j(2) n1 by (meson not_le)
    then show ?thesis using mj by (simp add: n'_def)
  qed
  then show ?thesis using s rt by blast
qed

end
