(* ===== verification/Spec2Isabelle.thy ===== *)
theory Spec2Isabelle
  imports Session Float_Round
begin

text \<open>
  \<^bold>\<open>Verification of CODOTAKU RPN.\<close> The program (\<^verbatim>\<open>src/src/main.rs\<close>, one Rust
  file) is an interactive Reverse Polish Notation calculator. \<^verbatim>\<open>main\<close> prints a
  banner, registers two completion callbacks, the history file and a Ctrl-X binding with
  the \<^verbatim>\<open>editline\<close> crate, and loops: it reads a line, splits it at white space and
  evaluates the tokens left to right against an operand stack (\<^verbatim>\<open>Vec<f64>\<close>) and a
  per-line variable map (\<^verbatim>\<open>HashMap\<close>), prompting for the value of an unknown
  identifier through the same line reader; at the end of a line it pops and prints the
  result and requires the stack to be empty. Every error is a panic that ends the
  process.

  \<^bold>\<open>Theories and what they model.\<close>
  \<^item> RPN_Prelude: \<^verbatim>\<open>Vec::push\<close>/\<^verbatim>\<open>Vec::pop\<close> on a list whose end is the top,
    \<^verbatim>\<open>Option::expect\<close> as an error value, the collection \<open>rpn_simps\<close>.
  \<^item> Completion: \<^verbatim>\<open>CMDS\<close>, \<^verbatim>\<open>list_possib\<close> (its \<^verbatim>\<open>for\<close> loop is
    \<open>list_possib_loop\<close>) and \<^verbatim>\<open>complete\<close>, lines 7--30.
  \<^item> Tokenizer: \<^verbatim>\<open>str::split_whitespace\<close> (line 58) on the ASCII white space,
    and \<open>join_seps\<close>, a line as its separators and words, the specification of it.
  \<^item> Float_Literal: the recognizer of \<^verbatim>\<open>str::parse::<f64>\<close> (Rust's
    \<^verbatim>\<open>dec2flt\<close>: \<open>parse_number\<close>, \<open>parse_scientific\<close>, \<open>parse_inf_nan\<close> with its
    \<^verbatim>\<open>& 0xDF\<close> case folding, the exponent saturating at \<open>0x10000\<close> as Rust
    accumulates it), returning the decimal literal, and the
    documented literal grammar as the inductive predicates \<open>exp_syntax\<close>,
    \<open>number_syntax\<close> and \<open>float_syntax\<close>, against which the recognizer is proved.
  \<^item> F64_Ops: the interface \<open>'v f64_ops\<close> of the \<^verbatim>\<open>f64\<close> operations the code calls
    (arithmetic, \<^verbatim>\<open>powf\<close>, \<^verbatim>\<open>log\<close>, the unary methods, the constants, rounding a
    literal, \<^verbatim>\<open>Display\<close>). The evaluator and the loop are generic in it.
  \<^item> Float_Model: \<open>xf_ops\<close>, an idealised \<^verbatim>\<open>f64\<close> (exact reals, the two
    infinities, NaN, with the IEEE special cases), the instance most concrete runs and
    witnesses use.
  \<^item> Binary64: IEEE 754 binary64. \<open>round64\<close> rounds a real to nearest, ties to
    even, onto the grid of \<open>ulp_exp\<close> (subnormals included), and overflows to the
    infinities from the threshold \<open>T64 = 2^1024 - 2^970\<close>. The binary64 values are
    given by their encodings (\<open>valof64\<close>, \<open>is_double\<close>).
  \<^item> F64_Display: Rust's \<^verbatim>\<open>Display\<close> of \<^verbatim>\<open>f64\<close> as \<open>r64_show\<close>, the shortest
    decimal that rounds back to the value (the nearer of two), in positional notation.
  \<^item> Float_Round: \<open>r64_ops\<close>, the interface instance whose every operation, constant
    and parsed literal is the exact one of \<open>xf_ops\<close> rounded once by \<open>round64\<close>, as
    IEEE prescribes for \<^verbatim>\<open>+ - * / %\<close>, \<^verbatim>\<open>sqrt\<close> and \<^verbatim>\<open>parse\<close>; \<^verbatim>\<open>log\<close> is
    rounded as Rust computes it, \<^verbatim>\<open>self.ln() / base.ln()\<close>: each logarithm, then the
    quotient (so \<^verbatim>\<open>1000 10 log\<close> need not be exactly 3); and which prints
    with \<open>r64_show\<close>.
  \<^item> Evaluator: the state record \<open>rpn_state\<close> (the stack and variables of lines
    43--44, plus the line reader's pending replies, the prompts shown and the printed
    lines), \<open>classify\<close> (the \<^verbatim>\<open>match token\<close> of lines 59--170), one definition per
    group of arms (\<open>eval_binop\<close>, \<open>eval_log\<close>, \<open>eval_unop\<close>, constants,
    \<open>eval_other\<close> with \<open>readline\<close>), \<open>eval_token\<close>, \<open>eval_tokens\<close> (the
    \<^verbatim>\<open>for\<close> loop), \<open>finish_line\<close> (lines 173--178) and \<open>eval_line\<close>; the panics
    are the constructors of \<open>rpn_error\<close>. The abstract specification of the stack
    discipline is \<open>arity\<close> and \<open>depth_run\<close>.
  \<^item> REPL: the loop of lines 51--179 as the terminating function \<open>repl\<close>,
    \<open>main_rpn\<close> from the initial state with the banner, and the same loop as the
    step relation \<open>repl_step\<close> with its reachable states \<open>awaiting\<close>.
  \<^item> Session: the whole of \<^verbatim>\<open>main\<close> as \<open>main_session\<close>. It covers the editline set-up
    of lines 46--49 (\<open>session_editor\<close>: the two completion callbacks,
    \<^verbatim>\<open>read_history\<close> of \<open>HISTORY_FILENAME\<close>, the Ctrl-X binding to \<open>do_exit\<close>), the
    loop on the replies the editor gives, and \<^verbatim>\<open>write_history\<close> at a normal exit (line
    181). The editor is taken from the specification. Its state \<open>editor\<close> holds the
    callbacks, the key bindings and the history. \<open>el_readline\<close> is one
    \<^verbatim>\<open>readline\<close> call on the user's events (a typed line, a key, end of input). The
    file system is a map from paths to contents.

  \<^bold>\<open>What is proved.\<close>
  \<^item> Per line: the result line and the cleared state (C1); that a successful line is a
    well-formed RPN expression of the abstract depth machine (C2), whose underflow
    panics (C3); type soundness for that typing, progress and preservation (C4).
  \<^item> Per token: the result of every arm on every branch (C5--C10). This includes the
    arity panics, whose messages name \<^verbatim>\<open>'+'\<close> for every operator, the prompt, and
    the end-of-input and parse-error panics.
  \<^item> The unconsumed-values and blank-line panics (C11, C12), the scope of variables
    (C13, C14), and the number of output lines and of prompts of a line (C15, C16).
  \<^item> The loop: the invariant of its reachable states by rule induction (C17); exit on
    an empty line or end of input (C18); that the loop function refines the step
    relation (C19).
  \<^item> The process: no file but the history file is written, and none on a panic (C20);
    the history persists across sessions with the lines of each normal session
    appended (C21); Ctrl-X ends the process normally (C22).
  \<^item> Completion (C23, C24). Literals: \<^verbatim>\<open>parse::<f64>\<close> accepts exactly the
    documented grammar, so that the variables are exactly the other tokens (C25); the
    value of a decimal literal (C26).
  \<^item> Binary64: each binary operator of the rounded instance is correctly rounded, the
    nearest binary64 value to the exact result (C27); the standard model, relative error
    at most \<open>2^-53\<close> in the normal range (C28); overflow to the infinity of the sign
    from the threshold \<open>T64\<close> (C29); the number printed on a result line reads back as
    the value computed (C30) and has the fewest significant digits that do (C31);
    \<^verbatim>\<open>EPSILON\<close> is the increment from 1.0 to the next binary64 value, as the
    specification says (C32).
  \<^item> The tokenizer: the tokens are the maximal runs of characters other than white
    space (C33).
  \<^item> Across components: the completion list and the dispatch table name the same
    words (C34); \<^verbatim>\<open>a b op\<close> for literals (C35); and the sign of the remainder (C36).

  \<^bold>\<open>Bounds and choices.\<close> There is no fuel: every loop is structural or measured
  (\<open>split_whitespace\<close> by the length of the string, \<open>repl\<close> by the number of pending
  replies, which each iteration decreases, \<open>el_session\<close> by the number of events).
  The input of a session is a finite list of events. When it runs out, the line
  reader reports end of input, as at end of file. The editor's replies do not
  depend on its history. So the replies are computed from the events first, and the
  history written at exit is that of the editor after as many \<^verbatim>\<open>readline\<close> calls
  as prompts were shown. \<open>r64_show\<close> tries 1 to 16 significant digits and otherwise takes
  the nearest 17-digit decimal; 17 digits always round back, since their error is at most
  \<open>|y| * 10^-16 / 2\<close>, below half the gap \<open>|y| / 2^53\<close> between binary64 values.

  \<^bold>\<open>Not modelled.\<close>
  \<^item> Line editing, the completion user interface and the history size limit of the
    \<^verbatim>\<open>editline\<close> library: the library is not part of the sources. Only what
    \<^verbatim>\<open>main\<close> observes of it (the replies, the Ctrl-X binding, the history file)
    is taken from the specification.
  \<^item> A typed line is assumed to contain no newline.
  \<^item> Signed zero and NaN payloads of \<^verbatim>\<open>f64\<close>. The model has one zero, so
    \<^verbatim>\<open>-0\<close> is read and printed as \<^verbatim>\<open>0\<close> (Rust prints \<^verbatim>\<open>-0\<close>); modelling it
    needs a separate value in every operation of Float_Model. The accuracy of the libm functions
    \<^verbatim>\<open>powf\<close>, \<^verbatim>\<open>ln\<close>, \<^verbatim>\<open>sin\<close>, \<^verbatim>\<open>cos\<close>, \<^verbatim>\<open>tan\<close>: \<open>r64_ops\<close> takes them
    correctly rounded, which Rust does not promise. The generic theorems hold for
    every instance.
  \<^item> On the exact model \<open>xf_ops\<close>, \<^verbatim>\<open>Display\<close> of non-integral values beyond 16
    decimals. On \<open>r64_ops\<close>, when two shortest decimals are equally near the value,
    \<open>r64_show\<close> takes the lower one.
  \<^item> Multi-byte Unicode white space.
  \<^item> The text of panic messages beyond those written in the source.
  \<^item> The state at a panic: an error value carries no state, so the result line that
    \<^verbatim>\<open>println!\<close> writes just before the unconsumed-values panic (line 173) is not in
    the model's output.
\<close>

lemma word_ok_binop_symbol [simp]: "word_ok (binop_symbol op)"
  by (cases op) (simp_all add: word_ok_iff is_whitespace_def)

lemma split_three_words:
  "word_ok a \<Longrightarrow> word_ok b \<Longrightarrow> word_ok c \<Longrightarrow>
   split_whitespace (a @ CHR '' '' # b @ CHR '' '' # c) = [a, b, c]"
  using split_whitespace_word [of c "[]"] split_whitespace_word [of b "CHR '' '' # c"]
    split_whitespace_word [of a "CHR '' '' # b @ CHR '' '' # c"]
  by simp

text \<open>
  C34: the completion list and the dispatch table agree: the words the dispatch
  recognises are exactly the commands offered for completion and the six operator
  symbols.
\<close>

theorem dispatch_words_are_CMDS:
  "{t. classify t \<noteq> Other} = set CMDS \<union> {''+'', ''-'', ''*'', ''/'', ''%'', ''^''}"
  by (auto simp: classify_def CMDS_def split: if_splits)

text \<open>
  C35: for any two literals \<open>a\<close> and \<open>b\<close>, the line \<^verbatim>\<open>a b op\<close> evaluates to
  \<open>a op b\<close>: the first literal is the left operand.
\<close>

theorem rpn_binary_expression:
  "word_ok ta \<Longrightarrow> word_ok tb \<Longrightarrow> classify ta = Other \<Longrightarrow> classify tb = Other \<Longrightarrow>
   parse_f64 ops ta = Some a \<Longrightarrow> parse_f64 ops tb = Some b \<Longrightarrow> stack st = [] \<Longrightarrow>
   eval_line ops (ta @ '' '' @ tb @ '' '' @ binop_symbol op) st =
     Inr (st\<lparr>out := out st @ [binop_trace ops op a b (apply_binop ops op a b),
                              result_line ops (apply_binop ops op a b)],
             variables := Map.empty\<rparr>)"
  by (simp add: eval_line_def split_three_words eval_token_other eval_other_literal
      eval_token_def eval_binop_def finish_line_def vec_pop_def vec_push_def Let_def)

theorem rpn_binary_expression_witness:
  "eval_line xf_ops (''2'' @ '' '' @ ''0'' @ '' '' @ binop_symbol Div) ex_state =
     Inr (ex_state\<lparr>out := [binop_trace xf_ops Div (Fin 2) (Fin 0) PInf, result_line xf_ops PInf]\<rparr>)"
proof -
  have h: "word_ok ''2''" "word_ok ''0''" "classify ''2'' = Other" "classify ''0'' = Other"
    "parse_f64 xf_ops ''2'' = Some (Fin 2)" "parse_f64 xf_ops ''0'' = Some (Fin 0)" "stack ex_state = []"
    by (simp_all add: word_ok_iff is_whitespace_def classify_def rpn_run_defs ex_state_def)
  show ?thesis
    using rpn_binary_expression [OF h, of Div] by (simp add: inf_of_sign_def ex_state_def)
qed

text \<open>
  The tokens \<^verbatim>\<open>inf\<close> and \<^verbatim>\<open>NaN\<close> (and every case variant of \<^verbatim>\<open>inf\<close>,
  \<^verbatim>\<open>infinity\<close>, \<^verbatim>\<open>nan\<close>) are float literals to \<^verbatim>\<open>parse::<f64>\<close>, so they
  are never variables: \<^verbatim>\<open>inf NaN +\<close> is evaluated without any prompt and without
  reading input.
\<close>

lemma inf_nan_tokens_are_literals:
  "eval_line xf_ops ''inf NaN +'' ex_state =
     Inr (ex_state\<lparr>out := [binop_trace xf_ops Add PInf NaN NaN, result_line xf_ops NaN]\<rparr>)"
  by (simp add: rpn_run_defs ex_state_def)

text \<open>
  C36: \<^verbatim>\<open>%\<close> on the model is the truncated remainder: for a non-zero divisor
  \<open>b\<close>, \<open>a % b = r\<close> with \<open>a = k * b + r\<close> for an integer \<open>k\<close>,
  \<open>|r| < |b|\<close>, and \<open>r\<close> zero or of the sign of the left operand \<open>a\<close>.
\<close>

theorem rem_sign_follows_left:
  assumes "b \<noteq> 0"
  shows "\<exists>r k. apply_binop xf_ops Rem (Fin a) (Fin b) = Fin r \<and> a = of_int k * b + r \<and> \<bar>r\<bar> < \<bar>b\<bar> \<and> 0 \<le> r * a"
proof -
  define q where "q = a / b"
  obtain k where k: "trunc_real q = of_int k" and lt: "\<bar>q - trunc_real q\<bar> < 1"
    and sg: "0 \<le> (q - trunc_real q) * q"
    using trunc_real_bounds [of q] by blast
  define r where "r = a - b * of_int k"
  have a: "a = q * b" using assms by (simp add: q_def)
  have r': "r = b * (q - of_int k)" by (simp add: r_def a algebra_simps)
  have "\<bar>r\<bar> = \<bar>b\<bar> * \<bar>q - of_int k\<bar>" by (simp add: r' abs_mult)
  also have "\<dots> < \<bar>b\<bar>" using lt k assms by simp
  finally have lt': "\<bar>r\<bar> < \<bar>b\<bar>" .
  have "r * a = ((q - of_int k) * q) * (b * b)" by (simp add: r' a algebra_simps)
  then have ge: "0 \<le> r * a" using sg k by simp
  have "apply_binop xf_ops Rem (Fin a) (Fin b) = Fin r" using assms k by (simp add: r_def q_def)
  moreover have "a = of_int k * b + r" by (simp add: r_def)
  ultimately show ?thesis using lt' ge by blast
qed
theorem rem_sign_follows_left_witness:
  "(2::real) \<noteq> 0 \<and> (\<exists>r k. apply_binop xf_ops Rem (Fin (-7)) (Fin 2) = Fin r \<and> -7 = of_int k * 2 + r \<and>
     \<bar>r\<bar> < \<bar>2\<bar> \<and> 0 \<le> r * -7)"
proof -
  have h: "(2::real) \<noteq> 0" by simp
  show ?thesis using h rem_sign_follows_left [OF h, of "-7"] by blast
qed

text \<open>
  On the model, \<^verbatim>\<open>x n ^\<close> with a natural number \<open>n\<close> is \<open>x\<close> multiplied by
  itself \<open>n\<close> times, for every finite \<open>x\<close>, negative and zero included.
\<close>

lemma powf_natural_exponent:
  "apply_binop xf_ops Pow (Fin a) (Fin (real n)) = Fin (a ^ n)"
proof (cases "n = 0")
  case False
  consider "a = 1" | "0 < a" "a \<noteq> 1" | "a = 0" | "a < 0" by fastforce
  then show ?thesis
  proof cases
    case 3 then show ?thesis using False by simp
  next
    case 4
    have "a ^ n = (-1) ^ n * (- a) ^ n" by (simp flip: power_mult_distrib)
    then show ?thesis using 4 False
      by (simp add: is_odd_int_of_nat powr_realpow)
  qed (simp_all add: powr_realpow)
qed simp

end
